theory Spec2Isabelle
  imports Main "HOL-Library.AList"
begin

section \<open>Python values\<close>

text \<open>
  The pipeline of \<^verbatim>\<open>automation.py\<close> moves three kinds of data around: text, the values
  that \<^verbatim>\<open>json.loads\<close> builds, and exceptions. Text is \<^typ>\<open>string\<close>, one \<^typ>\<open>char\<close> per
  code point below 256. An exception is a value of \<open>py_error\<close>; a function that may raise
  returns \<open>py_error + 'a\<close>, with \<open>Inl\<close> for the exception that leaves it.
  \<open>DuckDuckGoSearchException\<close> carries \<^verbatim>\<open>str(e)\<close> and stands for the class and its
  subclasses, which is what the handler of \<^verbatim>\<open>duckduckgo_search\<close> catches.
\<close>

datatype py_error =
    IndexError
  | KeyError
  | TypeError
  | AttributeError
  | ValueError
  | JSONDecodeError
  | FileNotFoundError
  | DuckDuckGoSearchException string
  | OtherError string

text \<open>
  A JSON value as Python holds it after \<^verbatim>\<open>json.loads\<close>. A \<^verbatim>\<open>dict\<close> keeps its keys in
  insertion order, so it is an association list. A \<^verbatim>\<open>float\<close> is carried by its
  \<^verbatim>\<open>repr\<close>, the text Python prints for it.
\<close>

datatype json =
    JNull
  | JBool bool
  | JInt int
  | JFloat string
  | JString string
  | JList "json list"
  | JObject "(string \<times> json) list"

subsection \<open>Text of numbers\<close>

definition digit_char :: "nat \<Rightarrow> char" where
  "digit_char d = ''0123456789abcdef'' ! d"

function str_nat :: "nat \<Rightarrow> string" where
  "str_nat n = (if n < 10 then [digit_char n] else str_nat (n div 10) @ [digit_char (n mod 10)])"
  by pat_completeness auto
termination
  by (relation "measure id") auto

declare str_nat.simps [simp del]

definition str_int :: "int \<Rightarrow> string" where
  "str_int i = (if i < 0 then ''-'' @ str_nat (nat (- i)) else str_nat (nat i))"

subsection \<open>\<^verbatim>\<open>str\<close> and \<^verbatim>\<open>repr\<close>\<close>

text \<open>
  \<^verbatim>\<open>repr\<close> of a string: the quote is \<^verbatim>\<open>'\<close> unless the text holds a \<^verbatim>\<open>'\<close> and no
  \<^verbatim>\<open>"\<close>; the quote and the backslash are escaped, tab, newline and carriage return get
  their letters, and every other code point that is not printable becomes \<^verbatim>\<open>\xNN\<close>.
\<close>

definition repr_quote :: "string \<Rightarrow> char" where
  "repr_quote s = (if CHR 0x27 \<in> set s \<and> CHR 0x22 \<notin> set s then CHR 0x22 else CHR 0x27)"

definition printable :: "nat \<Rightarrow> bool" where
  "printable n = (32 \<le> n \<and> n \<noteq> 127 \<and> (n < 128 \<or> 160 < n) \<and> n \<noteq> 173)"

definition repr_char :: "char \<Rightarrow> char \<Rightarrow> string" where
  "repr_char q c =
     (if c = q \<or> c = CHR 0x5C then [CHR 0x5C, c]
      else if c = CHR 0x09 then [CHR 0x5C, CHR ''t'']
      else if c = CHR 0x0A then [CHR 0x5C, CHR ''n'']
      else if c = CHR 0x0D then [CHR 0x5C, CHR ''r'']
      else if printable (of_char c) then [c]
      else [CHR 0x5C, CHR ''x'', digit_char (of_char c div 16), digit_char (of_char c mod 16)])"

definition repr_str :: "string \<Rightarrow> string" where
  "repr_str s = (let q = repr_quote s in [q] @ concat (map (repr_char q) s) @ [q])"

text \<open>\<^verbatim>\<open>sep.join(parts)\<close>.\<close>

fun join :: "string \<Rightarrow> string list \<Rightarrow> string" where
  "join sep [] = []"
| "join sep [p] = p"
| "join sep (p # q # ps) = p @ sep @ join sep (q # ps)"

fun py_repr :: "json \<Rightarrow> string" where
  "py_repr JNull = ''None''"
| "py_repr (JBool b) = (if b then ''True'' else ''False'')"
| "py_repr (JInt i) = str_int i"
| "py_repr (JFloat r) = r"
| "py_repr (JString s) = repr_str s"
| "py_repr (JList xs) = ''['' @ join '', '' (map py_repr xs) @ '']''"
| "py_repr (JObject kv) =
     ''{'' @ join '', '' (map (\<lambda>p. repr_str (fst p) @ '': '' @ py_repr (snd p)) kv) @ ''}''"

definition py_str :: "json \<Rightarrow> string" where
  "py_str v = (case v of JString s \<Rightarrow> s | _ \<Rightarrow> py_repr v)"

text \<open>\<^verbatim>\<open>sub in s\<close> on strings.\<close>

fun starts_with :: "string \<Rightarrow> string \<Rightarrow> bool" where
  "starts_with [] s = True"
| "starts_with (p # ps) [] = False"
| "starts_with (p # ps) (c # cs) = (p = c \<and> starts_with ps cs)"

fun str_contains :: "string \<Rightarrow> string \<Rightarrow> bool" where
  "str_contains sub [] = (sub = [])"
| "str_contains sub (c # cs) = (starts_with sub (c # cs) \<or> str_contains sub cs)"

section \<open>The world outside the program\<close>

text \<open>
  Everything the program does to the outside is written to a \<open>world\<close>: the lines it
  prints, the seconds it sleeps, the subprocesses it starts (by their argument vectors),
  the searches and HTTP requests it sends, the clock readings it takes and the files it
  leaves. What the outside answers is an \<open>env\<close>: each answer is a function of the number
  of the call (how many such calls the run has made before) and of the call's arguments,
  so that the same request may be answered differently each time.
\<close>

record completed_process =
  stdout :: string
  stderr :: string

datatype search_outcome =
    Results "(string \<times> string) list list"
  | Raised py_error

record datetime =
  year :: nat
  month :: nat
  day :: nat
  hour :: nat
  minute :: nat

datatype cell = NaN | Val json

record frame =
  columns :: "string list"
  rows :: "(string \<times> cell) list list"

datatype stored_file = Pickle "(string \<times> string) list" | Csv frame

record world =
  printed :: "string list"
  slept :: "nat list"
  spawned :: "string list list"
  searched :: "string list"
  fetched :: "(string \<times> (string \<times> json) list) list"
  clock_reads :: nat
  files :: "string \<Rightarrow> stored_file option"

record env =
  subprocess_run :: "nat \<Rightarrow> string list \<Rightarrow> completed_process"
  ddgs_text :: "nat \<Rightarrow> string \<Rightarrow> search_outcome"
  requests_get_json :: "nat \<Rightarrow> string \<Rightarrow> (string \<times> json) list \<Rightarrow> py_error + json"
  json_loads :: "string \<Rightarrow> py_error + json"
  now :: "nat \<Rightarrow> datetime"
  search_api_key :: string
  search_engine_id :: string
  timedelta_str :: "datetime \<Rightarrow> datetime \<Rightarrow> string"
  frame_str :: "frame \<Rightarrow> string"

definition print :: "string \<Rightarrow> world \<Rightarrow> world" where
  "print s w = w\<lparr>printed := printed w @ [s]\<rparr>"

definition sleep :: "nat \<Rightarrow> world \<Rightarrow> world" where
  "sleep d w = w\<lparr>slept := slept w @ [d]\<rparr>"

text \<open>
  \<^verbatim>\<open>subprocess.run(['python3', 'scraper.py', '-prompt', prompt, '-source', source_link],
  capture_output=True, text=True)\<close>, the one way the program starts a subprocess.
\<close>

definition scraper_argv :: "string \<Rightarrow> string \<Rightarrow> string list" where
  "scraper_argv prompt source_link =
     [''python3'', ''scraper.py'', ''-prompt'', prompt, ''-source'', source_link]"

definition run_scraper :: "env \<Rightarrow> string \<Rightarrow> string \<Rightarrow> world \<Rightarrow> completed_process \<times> world" where
  "run_scraper E prompt source_link w =
     (subprocess_run E (length (spawned w)) (scraper_argv prompt source_link),
      w\<lparr>spawned := spawned w @ [scraper_argv prompt source_link]\<rparr>)"

section \<open>The rate-limited search\<close>

text \<open>
  \<^verbatim>\<open>results[0]['href']\<close>: an empty result list raises \<^verbatim>\<open>IndexError\<close>, a first result
  without the key raises \<^verbatim>\<open>KeyError\<close>.
\<close>

definition first_href :: "(string \<times> string) list list \<Rightarrow> py_error + string" where
  "first_href rs =
     (case rs of
        [] \<Rightarrow> Inl IndexError
      | r # _ \<Rightarrow> (case map_of r ''href'' of None \<Rightarrow> Inl KeyError | Some h \<Rightarrow> Inr h))"

definition max_retries :: nat where
  "max_retries = 10"

definition initial_delay :: nat where
  "initial_delay = 5"

text \<open>
  The body of \<^verbatim>\<open>for attempt in range(max_retries)\<close>, by recursion on the attempts still
  to come; the empty list is the statement after the loop.
\<close>

fun ddg_attempts :: "env \<Rightarrow> string \<Rightarrow> nat list \<Rightarrow> world \<Rightarrow> (py_error + string) \<times> world" where
  "ddg_attempts E query [] w =
     (Inl (DuckDuckGoSearchException ''Max retries reached. Unable to complete search.''), w)"
| "ddg_attempts E query (attempt # rest) w =
     (let q = query @ '' BC'';
          w1 = w\<lparr>searched := searched w @ [q]\<rparr>
      in case ddgs_text E (length (searched w)) q of
           Results rs \<Rightarrow> (first_href rs, w1)
         | Raised (DuckDuckGoSearchException msg) \<Rightarrow>
             if str_contains ''Ratelimit'' msg \<and> attempt < max_retries - 1
             then let delay = initial_delay * 2 ^ attempt;
                      w2 = print (''Rate limit hit. Waiting '' @ str_nat delay
                                  @ '' seconds before retrying...'') w1
                  in ddg_attempts E query rest (sleep delay w2)
             else (Inl (DuckDuckGoSearchException msg), w1)
         | Raised e \<Rightarrow> (Inl e, w1))"

definition duckduckgo_search :: "env \<Rightarrow> string \<Rightarrow> world \<Rightarrow> (py_error + string) \<times> world" where
  "duckduckgo_search E query w = ddg_attempts E query [0..<max_retries] w"

section \<open>Dynamic operations on values\<close>

text \<open>
  What Python checks at run time is checked here: an index out of range, a missing key,
  an item assignment on a value that is no \<^verbatim>\<open>dict\<close>.
\<close>

definition getitem_list :: "'a list \<Rightarrow> nat \<Rightarrow> py_error + 'a" where
  "getitem_list xs n = (if n < length xs then Inr (xs ! n) else Inl IndexError)"

text \<open>\<^verbatim>\<open>v[k]\<close> with a string \<open>k\<close>: only a \<^verbatim>\<open>dict\<close> takes a string subscript.\<close>

definition getitem_key :: "json \<Rightarrow> string \<Rightarrow> py_error + json" where
  "getitem_key v k =
     (case v of
        JObject kv \<Rightarrow> (case map_of kv k of None \<Rightarrow> Inl KeyError | Some x \<Rightarrow> Inr x)
      | _ \<Rightarrow> Inl TypeError)"

text \<open>
  \<^verbatim>\<open>v[k] = x\<close> with a string \<open>k\<close>: a key the \<^verbatim>\<open>dict\<close> has keeps its place, a new one goes
  last, which is \<^const>\<open>AList.update\<close>.
\<close>

definition setitem :: "json \<Rightarrow> string \<Rightarrow> json \<Rightarrow> py_error + json" where
  "setitem v k x =
     (case v of
        JObject kv \<Rightarrow> Inr (JObject (AList.update k x kv))
      | _ \<Rightarrow> Inl TypeError)"

definition py_len :: "json \<Rightarrow> py_error + nat" where
  "py_len v =
     (case v of
        JString s \<Rightarrow> Inr (length s)
      | JList xs \<Rightarrow> Inr (length xs)
      | JObject kv \<Rightarrow> Inr (length kv)
      | _ \<Rightarrow> Inl TypeError)"

text \<open>\<^verbatim>\<open>v[n]\<close> with an integer \<open>n \<ge> 0\<close>; a \<^verbatim>\<open>dict\<close> built from JSON has no integer key.\<close>

definition getitem_int :: "json \<Rightarrow> nat \<Rightarrow> py_error + json" where
  "getitem_int v n =
     (case v of
        JString s \<Rightarrow> (if n < length s then Inr (JString [s ! n]) else Inl IndexError)
      | JList xs \<Rightarrow> getitem_list xs n
      | JObject kv \<Rightarrow> Inl KeyError
      | _ \<Rightarrow> Inl TypeError)"

definition hashable :: "json \<Rightarrow> bool" where
  "hashable v = (case v of JList xs \<Rightarrow> False | JObject kv \<Rightarrow> False | _ \<Rightarrow> True)"

text \<open>\<^verbatim>\<open>s.rsplit(sep, 1)\<close>: split once, at the last separator, if there is one.\<close>

definition rsplit1 :: "char \<Rightarrow> string \<Rightarrow> string list" where
  "rsplit1 sep s =
     (if sep \<in> set s
      then [rev (tl (dropWhile (\<lambda>c. c \<noteq> sep) (rev s))), rev (takeWhile (\<lambda>c. c \<noteq> sep) (rev s))]
      else [s])"

text \<open>\<^verbatim>\<open>s[1:-1]\<close>.\<close>

definition strip_ends :: "string \<Rightarrow> string" where
  "strip_ends s = butlast (tl s)"

text \<open>\<^verbatim>\<open>xs[:n]\<close>: a negative \<open>n\<close> counts from the end.\<close>

definition slice_to :: "int \<Rightarrow> 'a list \<Rightarrow> 'a list" where
  "slice_to n xs = (if 0 \<le> n then take (nat n) xs else take (length xs - nat (- n)) xs)"

text \<open>The first exception of a list of results, or all their values.\<close>

fun collect :: "(py_error + 'a) list \<Rightarrow> py_error + 'a list" where
  "collect [] = Inr []"
| "collect (Inl e # rs) = Inl e"
| "collect (Inr x # rs) = (case collect rs of Inl e \<Rightarrow> Inl e | Inr xs \<Rightarrow> Inr (x # xs))"

text \<open>
  A \<^verbatim>\<open>for\<close> loop whose body may raise: the body takes the loop variable, the state the
  loop builds and the surroundings it writes to; the first exception ends the loop.
\<close>

fun for_each :: "('x \<Rightarrow> 's \<Rightarrow> 'w \<Rightarrow> (py_error + 's) \<times> 'w) \<Rightarrow> 'x list \<Rightarrow> 's \<Rightarrow> 'w
                   \<Rightarrow> (py_error + 's) \<times> 'w" where
  "for_each body [] s w = (Inr s, w)"
| "for_each body (x # xs) s w =
     (case body x s w of
        (Inl e, w1) \<Rightarrow> (Inl e, w1)
      | (Inr s1, w1) \<Rightarrow> for_each body xs s1 w1)"

section \<open>Discovery of names and links\<close>

text \<open>
  \<^verbatim>\<open>google_search\<close>: one GET with the query parameters; the answer is the response's
  JSON body, or the exception of the request or of decoding the body.
\<close>

definition google_search :: "env \<Rightarrow> json \<Rightarrow> string \<Rightarrow> string \<Rightarrow> (string \<times> json) list \<Rightarrow> world
    \<Rightarrow> (py_error + json) \<times> world" where
  "google_search E query api_key engine_id kwargs w =
     (let url = ''https://www.googleapis.com/customsearch/v1'';
          params = fold (\<lambda>p. AList.update (fst p) (snd p)) kwargs
                     [(''q'', query), (''key'', JString api_key), (''cx'', JString engine_id)]
      in (requests_get_json E (length (fetched w)) url params,
          w\<lparr>fetched := fetched w @ [(url, params)]\<rparr>))"

text \<open>\<^verbatim>\<open>scrap_link\<close>: \<^verbatim>\<open>association.replace\<close> is there for a string only.\<close>

definition scrap_link :: "env \<Rightarrow> json \<Rightarrow> world \<Rightarrow> (py_error + json) \<times> world" where
  "scrap_link E association w =
     (case association of
        JString a \<Rightarrow>
          let source_link = ''https://duckduckgo.com/?t=h_&q=''
                            @ map (\<lambda>c. if c = CHR '' '' then CHR ''+'' else c) a @ ''&ia=web'';
              prompt = ''find the link of '' @ a
          in (case run_scraper E prompt source_link w of (result, w1) \<Rightarrow>
               (case json_loads E (stdout result) of
                  Inl e \<Rightarrow> (Inl e, w1)
                | Inr l2 \<Rightarrow> (getitem_key l2 ''link'', w1)))
      | _ \<Rightarrow> (Inl AttributeError, w))"

text \<open>
  What \<^verbatim>\<open>find_websites\<close> returns: the error text of the extractor, or the names with the
  links. \<open>NPs_links\<close> is kept as the item assignments \<^verbatim>\<open>NPs_links[np] = ...\<close> in the order
  they were made.
\<close>

datatype websites = ErrorText string | Sites json "(json \<times> json) list"

text \<open>\<^verbatim>\<open>resdict[list(resdict.keys())[0]]\<close>.\<close>

definition first_value :: "json \<Rightarrow> py_error + json" where
  "first_value resdict =
     (case resdict of
        JObject kv \<Rightarrow> (case kv of [] \<Rightarrow> Inl IndexError | p # ps \<Rightarrow> getitem_key resdict (fst p))
      | _ \<Rightarrow> Inl AttributeError)"

text \<open>
  The search the loop of \<^verbatim>\<open>find_websites\<close> makes for one name; \<open>None\<close> when
  \<open>search_engine\<close> is none of the three, and nothing is assigned.
\<close>

definition resolve :: "env \<Rightarrow> string \<Rightarrow> json \<Rightarrow> world \<Rightarrow> (py_error + json option) \<times> world" where
  "resolve E search_engine np w =
     (if search_engine = ''google''
      then (case google_search E np (search_api_key E) (search_engine_id E) [(''lim'', JInt 1)] w of
              (Inl e, w1) \<Rightarrow> (Inl e, w1)
            | (Inr v, w1) \<Rightarrow> (Inr (Some v), w1))
      else if search_engine = ''ddg''
      then (case duckduckgo_search E (py_str np) w of
              (Inl e, w1) \<Rightarrow> (Inl e, w1)
            | (Inr u, w1) \<Rightarrow> (Inr (Some (JString u)), w1))
      else if search_engine = ''gemini''
      then (case scrap_link E np w of
              (Inl e, w1) \<Rightarrow> (Inl e, w1)
            | (Inr v, w1) \<Rightarrow> (Inr (Some v), w1))
      else (Inr None, w))"

definition fw_step :: "env \<Rightarrow> string \<Rightarrow> json \<Rightarrow> nat \<Rightarrow> nat \<Rightarrow> (json \<times> json) list \<Rightarrow> world
    \<Rightarrow> (py_error + (json \<times> json) list) \<times> world" where
  "fw_step E search_engine NPs_names len_names n NPs_links w =
     (case getitem_int NPs_names n of
        Inl e \<Rightarrow> (Inl e, w)
      | Inr np \<Rightarrow>
          let w1 = print (str_nat (n + 1) @ ''/'' @ str_nat len_names @ '' | '' @ py_str np) w
          in (case resolve E search_engine np w1 of
                (Inl e, w2) \<Rightarrow> (Inl e, w2)
              | (Inr None, w2) \<Rightarrow> (Inr NPs_links, w2)
              | (Inr (Some v), w2) \<Rightarrow>
                  if hashable np then (Inr (NPs_links @ [(np, v)]), w2) else (Inl TypeError, w2)))"

definition discovery_prompt :: "string \<Rightarrow> string" where
  "discovery_prompt source_link =
     ''find the names of all the associations listed in the website '' @ source_link"

definition find_websites :: "env \<Rightarrow> string \<Rightarrow> string \<Rightarrow> bool \<Rightarrow> world
    \<Rightarrow> (py_error + websites) \<times> world" where
  "find_websites E source_link search_engine verb w =
     (let prompt = discovery_prompt source_link
      in case run_scraper E prompt source_link w of (result, w0) \<Rightarrow>
        let w1 = (if verb then print ''Finding the names of the associations done.'' w0 else w0)
        in if stdout result \<noteq> []
           then (case json_loads E (stdout result) of
                   Inl e \<Rightarrow> (Inl e, w1)
                 | Inr resdict \<Rightarrow>
                (case first_value resdict of
                   Inl e \<Rightarrow> (Inl e, w1)
                 | Inr NPs_names \<Rightarrow>
                (case py_len NPs_names of
                   Inl e \<Rightarrow> (Inl e, w1)
                 | Inr len_names \<Rightarrow>
                (case for_each (fw_step E search_engine NPs_names len_names) [0..<len_names] [] w1 of
                   (Inl e, w2) \<Rightarrow> (Inl e, w2)
                 | (Inr NPs_links, w2) \<Rightarrow>
                     (Inr (Sites NPs_names NPs_links),
                      if verb then print ''Finding the links of the associations done.'' w2
                      else w2)))))
           else (Inr (ErrorText (stderr result)), w1))"

section \<open>Collecting the organizations' records\<close>

definition np_prompt :: string where
  "np_prompt =
     ''find these infos about the no-profit organization:''
     @ ''              name, location, type, description, size, contacts, linkedin.''
     @ ''              For linkedin, give the link;''
     @ ''              for type, select the field where the no-prift operates, e.g. health,''
     @ '' environment, etc. Keep it to one, max two words.''"

text \<open>
  One round of the loop of \<^verbatim>\<open>get_np_info\<close>. \<open>NPs_dict\<close> maps a name to its record, in
  insertion order. The three statements of the success branch are one assignment each;
  the second and third raise \<^verbatim>\<open>TypeError\<close> when the parsed value is no \<^verbatim>\<open>dict\<close>.
\<close>

definition np_step :: "env \<Rightarrow> int \<Rightarrow> string list \<Rightarrow> string list \<Rightarrow> bool \<Rightarrow> nat
    \<Rightarrow> (string \<times> json) list \<Rightarrow> world \<Rightarrow> (py_error + (string \<times> json) list) \<times> world" where
  "np_step E lim links NPs_names verb n NPs_dict w =
     (case getitem_list links n of
        Inl e \<Rightarrow> (Inl e, w)
      | Inr source_link \<Rightarrow>
     (case getitem_list NPs_names n of
        Inl e \<Rightarrow> (Inl e, w)
      | Inr name \<Rightarrow>
     (case run_scraper E np_prompt source_link w of (result, w1) \<Rightarrow>
        let progress = str_nat (n + 1) @ ''/'' @ str_int lim @ '' | '';
            done_with = (\<lambda>w'. if verb then print (progress @ ''done with '' @ name) w' else w')
        in if stdout result \<noteq> []
           then (case json_loads E (stdout result) of
                   Inl e \<Rightarrow> (Inl e, w1)
                 | Inr v \<Rightarrow>
                (case setitem v ''name'' (JString name) of
                   Inl e \<Rightarrow> (Inl e, w1)
                 | Inr v1 \<Rightarrow>
                (case setitem v1 ''link'' (JString (hd (rsplit1 CHR ''/'' source_link))) of
                   Inl e \<Rightarrow> (Inl e, w1)
                 | Inr v2 \<Rightarrow> (Inr (AList.update name v2 NPs_dict), done_with w1))))
           else (Inr NPs_dict,
                 done_with (print (progress @ name @ [CHR 0x0A] @ stderr result) w1)))))"

definition get_np_info :: "env \<Rightarrow> int \<Rightarrow> string list \<Rightarrow> string list \<Rightarrow> bool \<Rightarrow> world
    \<Rightarrow> (py_error + (string \<times> json) list) \<times> world" where
  "get_np_info E lim links NPs_names verb w =
     for_each (np_step E lim links NPs_names verb) [0..<nat lim] [] w"

text \<open>
  The answer of the extractor to request \<open>n\<close> of a call of \<^verbatim>\<open>get_np_info\<close> that starts in
  the world \<open>w\<close>, and whether it is the success of the program's test
  \<^verbatim>\<open>if result.stdout\<close>.
\<close>

definition extraction :: "env \<Rightarrow> world \<Rightarrow> string list \<Rightarrow> nat \<Rightarrow> completed_process" where
  "extraction E w links n =
     subprocess_run E (length (spawned w) + n) (scraper_argv np_prompt (links ! n))"

definition succeeded :: "env \<Rightarrow> world \<Rightarrow> string list \<Rightarrow> nat \<Rightarrow> bool" where
  "succeeded E w links n = (stdout (extraction E w links n) \<noteq> [])"

section \<open>Assembling the table\<close>

text \<open>
  A \<open>frame\<close> is a \<^verbatim>\<open>DataFrame\<close>: its column labels in order, and its rows, each row
  holding the cells it was built with; a column the row was not built with reads as
  \<open>NaN\<close>.
\<close>

definition cell_of :: "(string \<times> cell) list \<Rightarrow> string \<Rightarrow> cell" where
  "cell_of r c = (case map_of r c of None \<Rightarrow> NaN | Some x \<Rightarrow> x)"

definition db_columns :: "string list" where
  "db_columns = [''name'', ''location'', ''description'', ''size'', ''contacts'',
                 ''social_media'', ''link'']"

text \<open>
  \<^verbatim>\<open>pd.DataFrame(d, index=[0])\<close>, one column per key of \<open>d\<close>: a scalar fills the one row, a
  list must have the length of the index and gives its element, a \<^verbatim>\<open>dict\<close> is aligned on
  the index label \<open>0\<close>, which none of its (string) keys is.
\<close>

definition broadcast :: "json \<Rightarrow> py_error + cell" where
  "broadcast v =
     (case v of
        JList xs \<Rightarrow> (case xs of [x] \<Rightarrow> Inr (Val x) | _ \<Rightarrow> Inl ValueError)
      | JObject kv \<Rightarrow> Inr NaN
      | _ \<Rightarrow> Inr (Val v))"

fun row_cells :: "(string \<times> json) list \<Rightarrow> py_error + (string \<times> cell) list" where
  "row_cells [] = Inr []"
| "row_cells (p # kv) =
     (case broadcast (snd p) of
        Inl e \<Rightarrow> Inl e
      | Inr c \<Rightarrow> (case row_cells kv of Inl e \<Rightarrow> Inl e | Inr r \<Rightarrow> Inr ((fst p, c) # r)))"

definition DataFrame_row :: "json \<Rightarrow> py_error + frame" where
  "DataFrame_row v =
     (case v of
        JObject kv \<Rightarrow>
          (case row_cells kv of
             Inl e \<Rightarrow> Inl e
           | Inr r \<Rightarrow> Inr \<lparr>columns = map fst kv, rows = [r]\<rparr>)
      | _ \<Rightarrow> Inl ValueError)"

text \<open>\<^verbatim>\<open>pd.concat([db, df], ignore_index=True)\<close>: the union of the columns, \<open>db\<close>'s first.\<close>

definition pd_concat :: "frame \<Rightarrow> frame \<Rightarrow> frame" where
  "pd_concat db df =
     \<lparr>columns = columns db @ filter (\<lambda>c. c \<notin> set (columns db)) (columns df),
      rows = rows db @ rows df\<rparr>"

text \<open>
  One round of the loop of \<^verbatim>\<open>create_database\<close>. The loop builds \<open>db\<close>; the caller's
  mapping \<open>NPs_dict\<close>, which the first statement assigns into, is part of what the loop
  writes to, so that it is there to look at after the call, also when the call raises.
\<close>

definition db_step :: "string \<Rightarrow> frame \<Rightarrow> (string \<times> json) list \<times> world
    \<Rightarrow> (py_error + frame) \<times> (string \<times> json) list \<times> world" where
  "db_step key db h =
     (case h of (NPs_dict, w) \<Rightarrow>
     (case map_of NPs_dict key of
        None \<Rightarrow> (Inl KeyError, h)
      | Some r \<Rightarrow>
     (case getitem_key r ''contacts'' of
        Inl e \<Rightarrow> (Inl e, h)
      | Inr c \<Rightarrow>
     (case setitem r ''contacts'' (JString (strip_ends (py_str c))) of
        Inl e \<Rightarrow> (Inl e, h)
      | Inr r1 \<Rightarrow>
        let h1 = (AList.update key r1 NPs_dict, w)
        in (case DataFrame_row r1 of
              Inl e \<Rightarrow> (Inl e, h1)
            | Inr df \<Rightarrow> (Inr (pd_concat db df), h1))))))"

definition create_database :: "(string \<times> json) list \<Rightarrow> bool \<Rightarrow> world
    \<Rightarrow> (py_error + frame) \<times> (string \<times> json) list \<times> world" where
  "create_database NPs_dict verb w =
     (case for_each db_step (map fst NPs_dict) \<lparr>columns = db_columns, rows = []\<rparr> (NPs_dict, w) of
        (Inl e, h) \<Rightarrow> (Inl e, h)
      | (Inr db, (NPs_dict1, w1)) \<Rightarrow>
          (Inr db, NPs_dict1, if verb then print ''Database created.'' w1 else w1))"

section \<open>The run driver\<close>

definition load_dict :: "string \<Rightarrow> world \<Rightarrow> py_error + (string \<times> string) list" where
  "load_dict dictionary_name w =
     (case files w (dictionary_name @ ''.pkl'') of
        None \<Rightarrow> Inl FileNotFoundError
      | Some (Pickle d) \<Rightarrow> Inr d
      | Some (Csv db) \<Rightarrow> Inl (OtherError ''UnpicklingError''))"

definition read_clock :: "env \<Rightarrow> world \<Rightarrow> datetime \<times> world" where
  "read_clock E w = (now E (clock_reads w), w\<lparr>clock_reads := clock_reads w + 1\<rparr>)"

definition zfill :: "nat \<Rightarrow> string \<Rightarrow> string" where
  "zfill width s = replicate (width - length s) CHR ''0'' @ s"

text \<open>\<^verbatim>\<open>strftime("%Y%m%d-%H%M")\<close>.\<close>

definition strftime :: "datetime \<Rightarrow> string" where
  "strftime t =
     zfill 4 (str_nat (year t)) @ zfill 2 (str_nat (month t)) @ zfill 2 (str_nat (day t))
     @ ''-'' @ zfill 2 (str_nat (hour t)) @ zfill 2 (str_nat (minute t))"

definition save_db :: "env \<Rightarrow> frame \<Rightarrow> string \<Rightarrow> bool \<Rightarrow> world \<Rightarrow> world" where
  "save_db E db path verb w =
     (case read_clock E w of (t, w1) \<Rightarrow>
        let dt = drop 2 (strftime t);
            w2 = w1\<lparr>files := (files w1)(path @ ''associations_'' @ dt @ ''.csv'' \<mapsto> Csv db)\<rparr>
        in if verb
           then print (''Database saved to '' @ [CHR 0x22] @ path @ [CHR 0x22] @ '' as''
                       @ [CHR 0x0A, CHR 0x22] @ ''associations_'' @ dt @ ''.csv'' @ [CHR 0x22]) w2
           else w2)"

text \<open>
  \<^verbatim>\<open>main(n_associations, limit, path, verbose)\<close>. Every name of \<open>NPs_names\<close> is a key of
  \<open>dbd\<close>; the lookup is written with its \<^verbatim>\<open>KeyError\<close> all the same.
\<close>

definition build_links :: "(string \<times> string) list \<Rightarrow> string list \<Rightarrow> py_error + string list" where
  "build_links dbd NPs_names =
     collect (map (\<lambda>np. case map_of dbd np of
                           None \<Rightarrow> Inl KeyError
                         | Some l \<Rightarrow> Inr (l @ ''/about'')) NPs_names)"

definition main :: "env \<Rightarrow> int \<Rightarrow> int \<Rightarrow> string \<Rightarrow> bool \<Rightarrow> world \<Rightarrow> (py_error + frame) \<times> world" where
  "main E n_associations lim path verb w =
     (case read_clock E w of (start, w1) \<Rightarrow>
     (case load_dict (path @ ''/links'') w1 of
        Inl e \<Rightarrow> (Inl e, w1)
      | Inr dbd \<Rightarrow>
        let NPs_names = slice_to n_associations (map fst dbd)
        in (case build_links dbd NPs_names of
              Inl e \<Rightarrow> (Inl e, w1)
            | Inr links \<Rightarrow>
           (case get_np_info E lim links NPs_names verb w1 of
              (Inl e, w2) \<Rightarrow> (Inl e, w2)
            | (Inr NPs_dict, w2) \<Rightarrow>
           (case create_database NPs_dict False w2 of
              (Inl e, NPs_dict1, w3) \<Rightarrow> (Inl e, w3)
            | (Inr db, NPs_dict1, w3) \<Rightarrow>
           (case read_clock E w3 of (end_time, w4) \<Rightarrow>
              (Inr db,
               if verb
               then print ([CHR 0x0A] @ ''Time taken: '' @ timedelta_str E start end_time) w4
               else w4)))))))"

text \<open>The parsed command line, and the block under \<^verbatim>\<open>if __name__ == "__main__"\<close>.\<close>

record args =
  arg_n_associations :: int
  arg_limit :: int
  arg_source_link :: string
  arg_path :: string
  arg_verbose :: bool

definition script :: "env \<Rightarrow> args \<Rightarrow> world \<Rightarrow> (py_error + frame) \<times> world" where
  "script E a w =
     (case main E (arg_n_associations a) (arg_limit a) (arg_source_link a) (arg_verbose a) w of
        (Inl e, w1) \<Rightarrow> (Inl e, w1)
      | (Inr db, w1) \<Rightarrow>
          let w2 = save_db E db (arg_path a) (arg_verbose a) w1
          in (Inr db, if arg_verbose a then print (frame_str E db) w2 else w2))"

section \<open>Notions of the statements\<close>

text \<open>
  The lines request \<open>n\<close> of \<^verbatim>\<open>get_np_info\<close> prints: the diagnostic of a failed extraction, and the
  progress line of a verbose run.
\<close>

definition np_lines :: "env \<Rightarrow> world \<Rightarrow> int \<Rightarrow> string list \<Rightarrow> string list \<Rightarrow> bool \<Rightarrow> nat \<Rightarrow> string list" where
  "np_lines E w lim links NPs_names verb n =
     (if succeeded E w links n then []
      else [str_nat (n + 1) @ ''/'' @ str_int lim @ '' | '' @ NPs_names ! n @ [CHR 0x0A]
            @ stderr (extraction E w links n)])
     @ (if verb then [str_nat (n + 1) @ ''/'' @ str_int lim @ '' | '' @ ''done with '' @ NPs_names ! n]
        else [])"

text \<open>
  The entry of \<open>NPs_dict\<close> that a successful request \<open>i\<close> leaves: the parsed object, with
  the name and the link assigned into it.
\<close>

definition np_entry :: "env \<Rightarrow> world \<Rightarrow> string list \<Rightarrow> string list \<Rightarrow> nat \<Rightarrow> string \<times> json \<Rightarrow> bool" where
  "np_entry E w links NPs_names i p =
     (fst p = NPs_names ! i \<and>
      (\<exists>kv. json_loads E (stdout (extraction E w links i)) = Inr (JObject kv)
         \<and> snd p = JObject (AList.update ''link'' (JString (hd (rsplit1 CHR ''/'' (links ! i))))
                            (AList.update ''name'' (JString (NPs_names ! i)) kv))))"

text \<open>
  What the first statement of the loop of \<^verbatim>\<open>create_database\<close> makes of a record.
\<close>

definition flattened :: "json \<Rightarrow> json \<Rightarrow> bool" where
  "flattened r r' =
     (\<exists>kv c. r = JObject kv \<and> map_of kv ''contacts'' = Some c
        \<and> r' = JObject (AList.update ''contacts'' (JString (strip_ends (py_str c))) kv))"

text \<open>
  The row that \<^verbatim>\<open>pd.DataFrame(record, index=[0])\<close> holds.
\<close>

definition row_of :: "json \<Rightarrow> (string \<times> cell) list \<Rightarrow> bool" where
  "row_of r' row = (\<exists>kv. r' = JObject kv \<and> row_cells kv = Inr row)"

text \<open>
  The keys of a record, in order.
\<close>

definition record_keys :: "json \<Rightarrow> string list" where
  "record_keys r = (case r of JObject kv \<Rightarrow> map fst kv | _ \<Rightarrow> [])"

text \<open>
  A number below 100 in two digits.
\<close>

definition two_digits :: "nat \<Rightarrow> string" where
  "two_digits n = [digit_char (n div 10), digit_char (n mod 10)]"

text \<open>
  The stamp \<^verbatim>\<open>YYMMDD-HHMM\<close> of a point in time.
\<close>

definition file_stamp :: "datetime \<Rightarrow> string" where
  "file_stamp t =
     two_digits (year t mod 100) @ two_digits (month t) @ two_digits (day t) @ ''-''
     @ two_digits (hour t) @ two_digits (minute t)"

text \<open>
  The points in time whose year has four digits, as \<^verbatim>\<open>datetime.now()\<close> gives them.
\<close>

definition valid_datetime :: "datetime \<Rightarrow> bool" where
  "valid_datetime t =
     (1000 \<le> year t \<and> year t \<le> 9999 \<and> 1 \<le> month t \<and> month t \<le> 12
      \<and> 1 \<le> day t \<and> day t \<le> 31 \<and> hour t \<le> 23 \<and> minute t \<le> 59)"

text \<open>
  The keys of the JSON objects that the successful ones of the first \<open>k\<close> extractions
  returned.
\<close>

definition extracted_keys :: "env \<Rightarrow> world \<Rightarrow> string list \<Rightarrow> nat \<Rightarrow> string set" where
  "extracted_keys E w links k =
     {c. \<exists>i kv. i < k \<and> succeeded E w links i
           \<and> json_loads E (stdout (extraction E w links i)) = Inr (JObject kv)
           \<and> c \<in> fst ` set kv}"

section \<open>Sample runs\<close>

text \<open>
  Concrete surroundings, on which the theorems below are run: an outside that answers
  nothing, a world in which nothing has happened yet, and variations of the two.
\<close>

definition quiet_env :: env where
  "quiet_env =
     \<lparr>subprocess_run = (\<lambda>i argv. \<lparr>stdout = [], stderr = []\<rparr>),
      ddgs_text = (\<lambda>i q. Results []),
      requests_get_json = (\<lambda>i url params. Inl (OtherError ''offline'')),
      json_loads = (\<lambda>s. Inl JSONDecodeError),
      now = (\<lambda>i. \<lparr>year = 2024, month = 3, day = 9, hour = 7, minute = 5\<rparr>),
      search_api_key = [], search_engine_id = [],
      timedelta_str = (\<lambda>a b. []), frame_str = (\<lambda>f. [])\<rparr>"

definition fresh_world :: world where
  "fresh_world =
     \<lparr>printed = [], slept = [], spawned = [], searched = [], fetched = [],
      clock_reads = 0, files = (\<lambda>p. None)\<rparr>"

definition ratelimited_env :: env where
  "ratelimited_env =
     quiet_env\<lparr>ddgs_text := (\<lambda>i q. Raised (DuckDuckGoSearchException ''202 Ratelimit''))\<rparr>"

definition answering_env :: env where
  "answering_env =
     quiet_env\<lparr>ddgs_text := (\<lambda>i q.
       if i < 2 then Raised (DuckDuckGoSearchException ''202 Ratelimit'')
       else Results [[(''title'', ''Food Bank''), (''href'', ''http://foodbank.example'')]])\<rparr>"

text \<open>
  Three organizations in the cache. The extractor answers the first and the third request
  and fails on the second; \<open>json_loads\<close> knows the two answers.
\<close>

definition sample_cache :: "(string \<times> string) list" where
  "sample_cache =
     [(''Food Bank'', ''http://foodbank.example/team''),
      (''Shelter'', ''http://shelter.example''),
      (''Clinic'', ''http://clinic.example/home'')]"

definition sample_names :: "string list" where
  "sample_names = [''Food Bank'', ''Shelter'', ''Clinic'']"

definition sample_links :: "string list" where
  "sample_links =
     [''http://foodbank.example/team/about'', ''http://shelter.example/about'',
      ''http://clinic.example/home/about'']"

definition sample_env :: env where
  "sample_env =
     quiet_env
       \<lparr>subprocess_run := (\<lambda>i argv.
          if i = 0 then \<lparr>stdout = ''<A>'', stderr = []\<rparr>
          else if i = 1 then \<lparr>stdout = [], stderr = ''Traceback: timeout''\<rparr>
          else \<lparr>stdout = ''<C>'', stderr = []\<rparr>),
        json_loads := (\<lambda>s.
          if s = ''<A>''
          then Inr (JObject [(''name'', JString ''X''), (''location'', JString ''Y''),
                             (''type'', JString ''health''),
                             (''contacts'', JList [JString ''a@x.org'', JString ''555-1234'']),
                             (''link'', JString ''http://wrong.example'')])
          else if s = ''<C>''
          then Inr (JObject [(''contacts'', JList []), (''size'', JInt 12)])
          else Inl JSONDecodeError)\<rparr>"

text \<open>What \<^verbatim>\<open>get_np_info\<close> returns for the three organizations.\<close>

definition sample_dict :: "(string \<times> json) list" where
  "sample_dict =
     [(''Food Bank'',
       JObject [(''name'', JString ''Food Bank''), (''location'', JString ''Y''),
                (''type'', JString ''health''),
                (''contacts'', JList [JString ''a@x.org'', JString ''555-1234'']),
                (''link'', JString ''http://foodbank.example/team'')]),
      (''Clinic'',
       JObject [(''contacts'', JList []), (''size'', JInt 12), (''name'', JString ''Clinic''),
                (''link'', JString ''http://clinic.example/home'')])]"

text \<open>The text \<^verbatim>\<open>'a@x.org', '555-1234'\<close>.\<close>

definition sample_contacts :: string where
  "sample_contacts =
     [CHR 0x27] @ ''a@x.org'' @ [CHR 0x27] @ '', '' @ [CHR 0x27] @ ''555-1234'' @ [CHR 0x27]"

text \<open>A world whose only file is the cache of the three organizations.\<close>

definition cached_world :: world where
  "cached_world = fresh_world\<lparr>files := [''data/links.pkl'' \<mapsto> Pickle sample_cache]\<rparr>"

text \<open>
  A world with two caches, under the directories \<^verbatim>\<open>A\<close> and \<^verbatim>\<open>B\<close>, and a command line that
  asks for one organization and writes to \<^verbatim>\<open>out/\<close>.
\<close>

definition two_caches_world :: world where
  "two_caches_world =
     fresh_world\<lparr>files :=
       [''A/links.pkl'' \<mapsto> Pickle [(''Food Bank'', ''http://foodbank.example/team'')],
        ''B/links.pkl'' \<mapsto> Pickle [(''Clinic'', ''http://clinic.example/home'')]]\<rparr>"

definition sample_args :: args where
  "sample_args =
     \<lparr>arg_n_associations = 1, arg_limit = 1, arg_source_link = ''A'', arg_path = ''out/'',
      arg_verbose = False\<rparr>"

text \<open>
  Three outsides for the discovery step: an extractor that prints nothing but an error
  text, one that prints what is no JSON, and one that lists two names, of which the search
  finds the first and fails on the second with an error that is no rate limit.
\<close>

definition silent_extractor_env :: env where
  "silent_extractor_env =
     quiet_env\<lparr>subprocess_run := (\<lambda>i argv. \<lparr>stdout = [], stderr = ''Traceback: no page''\<rparr>)\<rparr>"

definition malformed_env :: env where
  "malformed_env =
     quiet_env\<lparr>subprocess_run := (\<lambda>i argv. \<lparr>stdout = ''<html>'', stderr = []\<rparr>)\<rparr>"

definition search_error_env :: env where
  "search_error_env =
     quiet_env
       \<lparr>subprocess_run := (\<lambda>i argv. \<lparr>stdout = ''<names>'', stderr = []\<rparr>),
        json_loads := (\<lambda>s.
          if s = ''<names>''
          then Inr (JObject [(''associations'', JList [JString ''Food Bank'', JString ''Shelter''])])
          else Inl JSONDecodeError),
        ddgs_text := (\<lambda>i q.
          if i = 0 then Results [[(''href'', ''http://foodbank.example'')]]
          else Raised (DuckDuckGoSearchException ''connection timed out''))\<rparr>"

section \<open>Loops and association lists\<close>

lemma for_each_append:
  "for_each body (xs @ ys) s w =
     (case for_each body xs s w of
        (Inl e, w1) \<Rightarrow> (Inl e, w1)
      | (Inr s1, w1) \<Rightarrow> for_each body ys s1 w1)"
  by (induction xs arbitrary: s w) (auto split: prod.splits sum.splits)

lemma for_each_snoc_Inr:
  assumes "for_each body (xs @ [x]) s w = (Inr s', w')"
  obtains s1 w1 where "for_each body xs s w = (Inr s1, w1)" "body x s1 w1 = (Inr s', w')"
  using assms by (auto simp: for_each_append split: prod.splits sum.splits)

lemma np_step_Inr:
  assumes "np_step E lim links NPs_names verb n d w1 = (Inr d', w')"
    and "length (spawned w1) = length (spawned w) + n"
  shows "n < length links" "n < length NPs_names"
    "spawned w' = spawned w1 @ [scraper_argv np_prompt (links ! n)]"
    "printed w' = printed w1 @ np_lines E w lim links NPs_names verb n"
    "files w' = files w1" "clock_reads w' = clock_reads w1"
    "slept w' = slept w1" "searched w' = searched w1" "fetched w' = fetched w1"
    "\<not> succeeded E w links n \<Longrightarrow> d' = d"
    "succeeded E w links n \<Longrightarrow>
       \<exists>kv. json_loads E (stdout (extraction E w links n)) = Inr (JObject kv)
          \<and> d' = AList.update (NPs_names ! n)
                 (JObject (AList.update ''link'' (JString (hd (rsplit1 CHR ''/'' (links ! n))))
                            (AList.update ''name'' (JString (NPs_names ! n)) kv))) d"
  using assms
  by (auto simp: np_step_def getitem_list_def run_scraper_def Let_def print_def np_lines_def
      succeeded_def extraction_def setitem_def
      split: if_splits sum.splits json.splits)

lemma update_fresh: "k \<notin> fst ` set d \<Longrightarrow> AList.update k v d = d @ [(k, v)]"
  by (induction d) auto

lemma keys_update: "fst ` set (AList.update k v d) = insert k (fst ` set d)"
  by (induction d) auto

lemma length_update_le: "length (AList.update k v d) \<le> Suc (length d)"
  by (induction d) auto

lemma np_loop_basic:
  assumes "for_each (np_step E lim links NPs_names verb) [0..<k] [] w = (Inr d, w')"
  shows "k \<le> length links \<and> k \<le> length NPs_names
    \<and> spawned w' = spawned w @ map (\<lambda>i. scraper_argv np_prompt (links ! i)) [0..<k]
    \<and> printed w' = printed w @ concat (map (np_lines E w lim links NPs_names verb) [0..<k])
    \<and> files w' = files w \<and> clock_reads w' = clock_reads w
    \<and> slept w' = slept w \<and> searched w' = searched w \<and> fetched w' = fetched w
    \<and> distinct (map fst d)
    \<and> length d \<le> length (filter (succeeded E w links) [0..<k])
    \<and> fst ` set d \<subseteq> (\<lambda>i. NPs_names ! i) ` {i. i < k \<and> succeeded E w links i}"
  using assms
proof (induction k arbitrary: d w')
  case 0
  then show ?case by simp
next
  case (Suc k)
  from Suc.prems obtain d0 w0 where
    run: "for_each (np_step E lim links NPs_names verb) [0..<k] [] w = (Inr d0, w0)"
    and step: "np_step E lim links NPs_names verb k d0 w0 = (Inr d, w')"
    by (auto elim: for_each_snoc_Inr)
  from Suc.IH[OF run] have
    i1: "k \<le> length links" "k \<le> length NPs_names"
    and i2: "spawned w0 = spawned w @ map (\<lambda>i. scraper_argv np_prompt (links ! i)) [0..<k]"
    and i3: "printed w0 = printed w @ concat (map (np_lines E w lim links NPs_names verb) [0..<k])"
    and i4: "files w0 = files w" "clock_reads w0 = clock_reads w"
            "slept w0 = slept w" "searched w0 = searched w" "fetched w0 = fetched w"
    and i5: "distinct (map fst d0)"
    and i6: "length d0 \<le> length (filter (succeeded E w links) [0..<k])"
    and i7: "fst ` set d0 \<subseteq> (\<lambda>i. NPs_names ! i) ` {i. i < k \<and> succeeded E w links i}"
    by simp_all
  have len: "length (spawned w0) = length (spawned w) + k" using i2 by simp
  note st = np_step_Inr[OF step len]
  have c1: "Suc k \<le> length links" "Suc k \<le> length NPs_names" using st(1,2) by simp_all
  have c2: "spawned w' = spawned w @ map (\<lambda>i. scraper_argv np_prompt (links ! i)) [0..<Suc k]"
    using st(3) i2 by simp
  have c3: "printed w' = printed w @ concat (map (np_lines E w lim links NPs_names verb) [0..<Suc k])"
    using st(4) i3 by simp
  have c4: "files w' = files w" "clock_reads w' = clock_reads w"
            "slept w' = slept w" "searched w' = searched w" "fetched w' = fetched w"
    using st(5-9) i4 by simp_all
  define B where "B = (\<lambda>i. NPs_names ! i) ` {i. i < Suc k \<and> succeeded E w links i}"
  have mono: "(\<lambda>i. NPs_names ! i) ` {i. i < k \<and> succeeded E w links i} \<subseteq> B"
    unfolding B_def by auto
  have d0B: "fst ` set d0 \<subseteq> B" using i7 mono by (rule subset_trans)
  have c567: "distinct (map fst d) \<and> length d \<le> length (filter (succeeded E w links) [0..<Suc k])
     \<and> fst ` set d \<subseteq> B"
  proof (cases "succeeded E w links k")
    case False
    with st(10) have dd: "d = d0" by simp
    have "length d0 \<le> length (filter (succeeded E w links) [0..<Suc k])"
      using i6 False by simp
    then show ?thesis using dd i5 d0B by simp
  next
    case True
    with st(11) obtain v where d: "d = AList.update (NPs_names ! k) v d0" by blast
    have "length d \<le> Suc (length d0)" using d by (simp add: length_update_le)
    then have a: "length d \<le> length (filter (succeeded E w links) [0..<Suc k])"
      using i6 True by simp
    have b: "distinct (map fst d)" using d i5 by (simp add: distinct_update)
    have e: "fst ` set d = insert (NPs_names ! k) (fst ` set d0)"
      using d by (simp add: keys_update)
    have "NPs_names ! k \<in> B" unfolding B_def using True by blast
    then have "insert (NPs_names ! k) (fst ` set d0) \<subseteq> B" using d0B by (rule insert_subsetI)
    then have "fst ` set d \<subseteq> B" unfolding e .
    with a b show ?thesis by (intro conjI)
  qed
  then have c5: "distinct (map fst d)"
    and c6: "length d \<le> length (filter (succeeded E w links) [0..<Suc k])"
    and c7: "fst ` set d \<subseteq> (\<lambda>i. NPs_names ! i) ` {i. i < Suc k \<and> succeeded E w links i}"
    unfolding B_def by (rule conjunct1, rule conjunct2[THEN conjunct1], rule conjunct2[THEN conjunct2])
  show ?case by (intro conjI; fact)
qed

lemma np_loop_exact:
  assumes "for_each (np_step E lim links NPs_names verb) [0..<k] [] w = (Inr d, w')"
    and "distinct (take k NPs_names)"
  shows "list_all2 (np_entry E w links NPs_names) (filter (succeeded E w links) [0..<k]) d"
  using assms
proof (induction k arbitrary: d w')
  case 0
  then show ?case by simp
next
  case (Suc k)
  from Suc.prems obtain d0 w0 where
    run: "for_each (np_step E lim links NPs_names verb) [0..<k] [] w = (Inr d0, w0)"
    and step: "np_step E lim links NPs_names verb k d0 w0 = (Inr d, w')"
    by (auto elim: for_each_snoc_Inr)
  note b = np_loop_basic[OF run]
  have len: "length (spawned w0) = length (spawned w) + k" using b by simp
  note st = np_step_Inr[OF step len]
  have dk: "distinct (take k NPs_names)"
    using Suc.prems(2) st(2) by (simp add: take_Suc_conv_app_nth)
  note ih = Suc.IH[OF run dk]
  show ?case
  proof (cases "succeeded E w links k")
    case False
    with st(10) have "d = d0" by simp
    with ih False show ?thesis by simp
  next
    case True
    with st(11) obtain kv where kv: "json_loads E (stdout (extraction E w links k)) = Inr (JObject kv)"
      and d: "d = AList.update (NPs_names ! k)
                 (JObject (AList.update ''link'' (JString (hd (rsplit1 CHR ''/'' (links ! k))))
                            (AList.update ''name'' (JString (NPs_names ! k)) kv))) d0"
      by blast
    have "NPs_names ! k \<notin> set (take k NPs_names)"
      using Suc.prems(2) st(2) by (simp add: take_Suc_conv_app_nth)
    moreover have "(\<lambda>i. NPs_names ! i) ` {i. i < k \<and> succeeded E w links i} \<subseteq> set (take k NPs_names)"
    proof
      fix x assume "x \<in> (\<lambda>i. NPs_names ! i) ` {i. i < k \<and> succeeded E w links i}"
      then obtain i where i: "i < k" "x = NPs_names ! i" by auto
      have "k \<le> length NPs_names" using b by simp
      with i have "take k NPs_names ! i = x" "i < length (take k NPs_names)" by simp_all
      then show "x \<in> set (take k NPs_names)" by (metis nth_mem)
    qed
    ultimately have "NPs_names ! k \<notin> fst ` set d0" using b by blast
    then have "d = d0 @ [(NPs_names ! k,
                 JObject (AList.update ''link'' (JString (hd (rsplit1 CHR ''/'' (links ! k))))
                            (AList.update ''name'' (JString (NPs_names ! k)) kv)))]"
      using d by (simp add: update_fresh)
    moreover have "np_entry E w links NPs_names k (NPs_names ! k,
                 JObject (AList.update ''link'' (JString (hd (rsplit1 CHR ''/'' (links ! k))))
                            (AList.update ''name'' (JString (NPs_names ! k)) kv)))"
      using kv by (simp add: np_entry_def)
    ultimately show ?thesis using ih True by (simp add: list_all2_appendI)
  qed
qed

lemma row_cells_keys: "row_cells kv = Inr r \<Longrightarrow> map fst r = map fst kv"
  by (induction kv arbitrary: r) (auto split: sum.splits)

lemma row_cells_lookup:
  "row_cells kv = Inr r \<Longrightarrow> map_of kv k = Some v \<Longrightarrow> \<exists>c. broadcast v = Inr c \<and> map_of r k = Some c"
  by (induction kv arbitrary: r) (auto split: sum.splits if_splits)

lemma row_cells_None: "row_cells kv = Inr r \<Longrightarrow> map_of kv k = None \<Longrightarrow> map_of r k = None"
  by (induction kv arbitrary: r) (auto split: sum.splits if_splits)

lemma update_mid:
  "k \<notin> fst ` set pre \<Longrightarrow> AList.update k v (pre @ (k, r) # post) = pre @ (k, v) # post"
  by (induction pre) auto

lemma map_of_mid: "k \<notin> fst ` set pre \<Longrightarrow> map_of (pre @ (k, r) # post) k = Some r"
  by (induction pre) auto

lemma db_step_Inr:
  assumes "db_step key db (d, w) = (Inr db', h')" and "map_of d key = Some r"
  shows "\<exists>r1 row. flattened r r1 \<and> row_of r1 row \<and> h' = (AList.update key r1 d, w)
           \<and> columns db' = columns db @ filter (\<lambda>c. c \<notin> set (columns db)) (record_keys r1)
           \<and> rows db' = rows db @ [row]"
  using assms
  by (auto simp: db_step_def getitem_key_def setitem_def DataFrame_row_def pd_concat_def Let_def
      flattened_def row_of_def record_keys_def
      split: sum.splits json.splits option.splits)

lemma db_loop:
  assumes "for_each db_step (map fst post) db (pre @ post, w) = (Inr db', h')"
    and "distinct (map fst (pre @ post))"
  shows "\<exists>post' rs extra. h' = (pre @ post', w)
           \<and> map fst post' = map fst post
           \<and> list_all2 (\<lambda>p p'. flattened (snd p) (snd p')) post post'
           \<and> rows db' = rows db @ rs
           \<and> list_all2 (\<lambda>p' row. row_of (snd p') row) post' rs
           \<and> columns db' = columns db @ extra
           \<and> set extra = (\<Union>p' \<in> set post'. set (record_keys (snd p'))) - set (columns db)"
  using assms
proof (induction post arbitrary: pre db)
  case Nil
  then show ?case by simp
next
  case (Cons p post)
  obtain k r where p: "p = (k, r)" by (cases p)
  have fresh: "k \<notin> fst ` set pre" using Cons.prems(2) p by auto
  have look: "map_of (pre @ p # post) k = Some r" unfolding p using fresh by (rule map_of_mid)
  from Cons.prems(1) p obtain db1 h1 where
    step: "db_step k db (pre @ p # post, w) = (Inr db1, h1)"
    and rest: "for_each db_step (map fst post) db1 h1 = (Inr db', h')"
    by (auto split: prod.splits sum.splits)
  from db_step_Inr[OF step look] obtain r1 row where
    fl: "flattened r r1" and ro: "row_of r1 row"
    and h1: "h1 = (AList.update k r1 (pre @ p # post), w)"
    and cols: "columns db1 = columns db @ filter (\<lambda>c. c \<notin> set (columns db)) (record_keys r1)"
    and rws: "rows db1 = rows db @ [row]"
    by blast
  have h1': "h1 = ((pre @ [(k, r1)]) @ post, w)" using h1 fresh p by (simp add: update_mid)
  have dist: "distinct (map fst ((pre @ [(k, r1)]) @ post))" using Cons.prems(2) p by simp
  from Cons.IH[OF rest[unfolded h1'] dist] obtain post' rs extra where
    a: "h' = ((pre @ [(k, r1)]) @ post', w)"
    and b: "map fst post' = map fst post"
    and c: "list_all2 (\<lambda>p p'. flattened (snd p) (snd p')) post post'"
    and d: "rows db' = rows db1 @ rs"
    and e: "list_all2 (\<lambda>p' row. row_of (snd p') row) post' rs"
    and f: "columns db' = columns db1 @ extra"
    and g: "set extra = (\<Union>p' \<in> set post'. set (record_keys (snd p'))) - set (columns db1)"
    by blast
  let ?post' = "(k, r1) # post'"
  let ?extra = "filter (\<lambda>c. c \<notin> set (columns db)) (record_keys r1) @ extra"
  have 1: "h' = (pre @ ?post', w)" using a by simp
  have 2: "map fst ?post' = map fst (p # post)" using b p by simp
  have 3: "list_all2 (\<lambda>p p'. flattened (snd p) (snd p')) (p # post) ?post'" using c fl p by simp
  have 4: "rows db' = rows db @ (row # rs)" using d rws by simp
  have 5: "list_all2 (\<lambda>p' row. row_of (snd p') row) ?post' (row # rs)" using e ro by simp
  have 6: "columns db' = columns db @ ?extra" using f cols by simp
  have 7: "set ?extra = (\<Union>p' \<in> set ?post'. set (record_keys (snd p'))) - set (columns db)"
    using g cols by auto
  from 1 2 3 4 5 6 7 show ?case by blast
qed

lemma create_database_Inr:
  assumes "create_database d verb w = (Inr db, d', w')" and "distinct (map fst d)"
  shows "map fst d' = map fst d"
    and "list_all2 (\<lambda>p p'. flattened (snd p) (snd p')) d d'"
    and "list_all2 (\<lambda>p' row. row_of (snd p') row) d' (rows db)"
    and "\<exists>extra. columns db = db_columns @ extra
           \<and> set extra = (\<Union>p' \<in> set d'. set (record_keys (snd p'))) - set db_columns"
    and "w' = (if verb then print ''Database created.'' w else w)"
proof -
  from assms(1) obtain w1 where
    run: "for_each db_step (map fst d) \<lparr>columns = db_columns, rows = []\<rparr> ([] @ d, w) = (Inr db, (d', w1))"
    and w': "w' = (if verb then print ''Database created.'' w1 else w1)"
    by (auto simp: create_database_def split: prod.splits sum.splits)
  from assms(2) have dist: "distinct (map fst ([] @ d))" by simp
  from db_loop[OF run dist] obtain post' rs extra where
    a: "(d', w1) = ([] @ post', w)"
    and b: "map fst post' = map fst d"
    and c: "list_all2 (\<lambda>p p'. flattened (snd p) (snd p')) d post'"
    and e: "rows db = rows \<lparr>columns = db_columns, rows = []\<rparr> @ rs"
    and f: "list_all2 (\<lambda>p' row. row_of (snd p') row) post' rs"
    and g: "columns db = columns \<lparr>columns = db_columns, rows = []\<rparr> @ extra"
    and h: "set extra = (\<Union>p' \<in> set post'. set (record_keys (snd p')))
              - set (columns \<lparr>columns = db_columns, rows = []\<rparr>)"
    by blast
  from a have d': "d' = post'" and w1: "w1 = w" by simp_all
  show "map fst d' = map fst d" using b d' by simp
  show "list_all2 (\<lambda>p p'. flattened (snd p) (snd p')) d d'" using c d' by simp
  show "list_all2 (\<lambda>p' row. row_of (snd p') row) d' (rows db)" using f e d' by simp
  show "\<exists>extra. columns db = db_columns @ extra
           \<and> set extra = (\<Union>p' \<in> set d'. set (record_keys (snd p'))) - set db_columns"
    using g h d' by simp
  show "w' = (if verb then print ''Database created.'' w else w)" using w' w1 by simp
qed

lemma update_keeps_keys: "k \<in> fst ` set kv \<Longrightarrow> map fst (AList.update k v kv) = map fst kv"
  by (induction kv) auto

lemma flattened_keys:
  assumes "flattened r r'"
  shows "record_keys r' = record_keys r"
proof -
  from assms obtain kv c where r: "r = JObject kv" and c: "map_of kv ''contacts'' = Some c"
    and r': "r' = JObject (AList.update ''contacts'' (JString (strip_ends (py_str c))) kv)"
    unfolding flattened_def by blast
  from c have "''contacts'' \<in> fst ` set kv" by (metis map_of_eq_None_iff option.simps(3))
  then show ?thesis using r r' by (simp add: record_keys_def update_keeps_keys)
qed

lemma get_np_info_Inr:
  assumes "get_np_info E lim links NPs_names verb w = (Inr d, w')"
  shows "nat lim \<le> length links" "nat lim \<le> length NPs_names"
    and "spawned w' = spawned w @ map (\<lambda>i. scraper_argv np_prompt (links ! i)) [0..<nat lim]"
    and "printed w' = printed w @ concat (map (np_lines E w lim links NPs_names verb) [0..<nat lim])"
    and "files w' = files w" "clock_reads w' = clock_reads w"
    and "distinct (map fst d)"
    and "length d \<le> length (filter (succeeded E w links) [0..<nat lim])"
  using np_loop_basic[OF assms[unfolded get_np_info_def]] by simp_all

lemma get_np_info_entries:
  assumes "get_np_info E lim links NPs_names verb w = (Inr d, w')"
    and "distinct (take (nat lim) NPs_names)"
  shows "list_all2 (np_entry E w links NPs_names) (filter (succeeded E w links) [0..<nat lim]) d"
  using np_loop_exact[OF assms(1)[unfolded get_np_info_def] assms(2)] .

lemma entry_cells:
  assumes e: "np_entry E w links NPs_names i p" and f: "flattened (snd p) r'" and r: "row_of r' row"
  shows "cell_of row ''name'' = Val (JString (NPs_names ! i))"
    and "cell_of row ''link'' = Val (JString (hd (rsplit1 CHR ''/'' (links ! i))))"
proof -
  from e obtain kv where
    p: "snd p = JObject (AList.update ''link'' (JString (hd (rsplit1 CHR ''/'' (links ! i))))
                            (AList.update ''name'' (JString (NPs_names ! i)) kv))"
    unfolding np_entry_def by blast
  from f p obtain c where
    r': "r' = JObject (AList.update ''contacts'' (JString (strip_ends (py_str c)))
               (AList.update ''link'' (JString (hd (rsplit1 CHR ''/'' (links ! i))))
                   (AList.update ''name'' (JString (NPs_names ! i)) kv)))"
    unfolding flattened_def by auto
  from r r' have rc: "row_cells (AList.update ''contacts'' (JString (strip_ends (py_str c)))
               (AList.update ''link'' (JString (hd (rsplit1 CHR ''/'' (links ! i))))
                   (AList.update ''name'' (JString (NPs_names ! i)) kv))) = Inr row"
    unfolding row_of_def by simp
  have n: "map_of (AList.update ''contacts'' (JString (strip_ends (py_str c)))
               (AList.update ''link'' (JString (hd (rsplit1 CHR ''/'' (links ! i))))
                   (AList.update ''name'' (JString (NPs_names ! i)) kv))) ''name''
           = Some (JString (NPs_names ! i))"
    by (simp add: update_conv')
  have l: "map_of (AList.update ''contacts'' (JString (strip_ends (py_str c)))
               (AList.update ''link'' (JString (hd (rsplit1 CHR ''/'' (links ! i))))
                   (AList.update ''name'' (JString (NPs_names ! i)) kv))) ''link''
           = Some (JString (hd (rsplit1 CHR ''/'' (links ! i))))"
    by (simp add: update_conv')
  from row_cells_lookup[OF rc n] show "cell_of row ''name'' = Val (JString (NPs_names ! i))"
    by (auto simp: broadcast_def cell_of_def)
  from row_cells_lookup[OF rc l]
  show "cell_of row ''link'' = Val (JString (hd (rsplit1 CHR ''/'' (links ! i))))"
    by (auto simp: broadcast_def cell_of_def)
qed

lemma pipeline_rows:
  assumes gi: "get_np_info E lim links NPs_names verb w = (Inr NPs_dict, w1)"
    and cd: "create_database NPs_dict verb' w1 = (Inr db, NPs_dict', w2)"
    and dn: "distinct (take (nat lim) NPs_names)"
  shows "list_all2 (\<lambda>i row. cell_of row ''name'' = Val (JString (NPs_names ! i))
            \<and> cell_of row ''link'' = Val (JString (hd (rsplit1 CHR ''/'' (links ! i)))))
          (filter (succeeded E w links) [0..<nat lim]) (rows db)"
proof -
  note a = get_np_info_entries[OF gi dn]
  note b = create_database_Inr(2)[OF cd get_np_info_Inr(7)[OF gi]]
  note c = create_database_Inr(3)[OF cd get_np_info_Inr(7)[OF gi]]
  have la: "length (filter (succeeded E w links) [0..<nat lim]) = length NPs_dict"
    using a by (rule list_all2_lengthD)
  have lb: "length NPs_dict = length NPs_dict'" using b by (rule list_all2_lengthD)
  have lc: "length NPs_dict' = length (rows db)" using c by (rule list_all2_lengthD)
  show ?thesis
  proof (rule list_all2_all_nthI)
    show "length (filter (succeeded E w links) [0..<nat lim]) = length (rows db)"
      using la lb lc by simp
  next
    fix j assume j: "j < length (filter (succeeded E w links) [0..<nat lim])"
    have 1: "np_entry E w links NPs_names (filter (succeeded E w links) [0..<nat lim] ! j) (NPs_dict ! j)"
      using a j by (rule list_all2_nthD)
    have 2: "flattened (snd (NPs_dict ! j)) (snd (NPs_dict' ! j))"
      using list_all2_nthD[OF b, of j] j la by simp
    have 3: "row_of (snd (NPs_dict' ! j)) (rows db ! j)"
      using list_all2_nthD[OF c, of j] j la lb by simp
    from entry_cells[OF 1 2 3]
    show "cell_of (rows db ! j) ''name''
            = Val (JString (NPs_names ! (filter (succeeded E w links) [0..<nat lim] ! j)))
          \<and> cell_of (rows db ! j) ''link''
            = Val (JString (hd (rsplit1 CHR ''/'' (links ! (filter (succeeded E w links) [0..<nat lim] ! j)))))"
      by simp
  qed
qed

lemma rsplit1_hd:
  assumes "sep \<in> set s"
  shows "\<exists>seg. s = hd (rsplit1 sep s) @ [sep] @ seg \<and> sep \<notin> set seg"
proof -
  let ?tw = "takeWhile (\<lambda>c. c \<noteq> sep) (rev s)"
  let ?dw = "dropWhile (\<lambda>c. c \<noteq> sep) (rev s)"
  have "sep \<in> set (rev s)" using assms by simp
  then have ne: "?dw \<noteq> []" by (simp add: dropWhile_eq_Nil_conv)
  then have "hd ?dw = sep" using hd_dropWhile[of "\<lambda>c. c \<noteq> sep" "rev s"] by simp
  with ne have dw: "?dw = sep # tl ?dw" by (metis list.collapse)
  have "rev s = ?tw @ ?dw" by simp
  then have "rev s = ?tw @ sep # tl ?dw" using dw by simp
  then have "rev (rev s) = rev (?tw @ sep # tl ?dw)" by (rule arg_cong)
  then have "s = rev (tl ?dw) @ [sep] @ rev ?tw" by simp
  moreover have "sep \<notin> set (rev ?tw)" by (auto dest: set_takeWhileD)
  moreover have "hd (rsplit1 sep s) = rev (tl ?dw)" using assms by (simp add: rsplit1_def)
  ultimately show ?thesis by metis
qed

lemma rsplit1_append:
  assumes "sep \<notin> set seg"
  shows "hd (rsplit1 sep (l @ [sep] @ seg)) = l"
proof -
  have "dropWhile (\<lambda>c. c \<noteq> sep) (rev seg @ sep # rev l) = sep # rev l"
    using assms by (simp add: dropWhile_append)
  then show ?thesis by (simp add: rsplit1_def)
qed

lemma upt_split_at:
  assumes "k < n"
  shows "[0..<n] = [0..<k] @ k # [Suc k..<n]"
proof -
  have "[0..<k + (n - k)] = [0..<k] @ [k..<k + (n - k)]" by (rule upt_add_eq_append) simp
  then have "[0..<n] = [0..<k] @ [k..<n]" using assms by simp
  then show ?thesis using assms by (simp add: upt_conv_Cons)
qed

lemma filter_all_but:
  assumes "k < n"
  shows "filter (\<lambda>i. i \<noteq> k) [0..<n] = [0..<k] @ [Suc k..<n]"
proof -
  have a: "filter (\<lambda>i. i \<noteq> k) [0..<k] = [0..<k]" by (rule filter_True) simp
  have b: "filter (\<lambda>i. i \<noteq> k) [Suc k..<n] = [Suc k..<n]" by (rule filter_True) simp
  show ?thesis unfolding upt_split_at[OF assms] using a b by simp
qed

lemma list_all2_map_eq:
  "list_all2 (\<lambda>x y. f y = g x) xs ys \<Longrightarrow> map f ys = map g xs"
  by (induction xs ys rule: list_all2_induct) simp_all

lemma list_all2_weaken:
  "list_all2 P xs ys \<Longrightarrow> (\<And>x y. P x y \<Longrightarrow> Q x y) \<Longrightarrow> list_all2 Q xs ys"
  by (rule list_all2_mono)

lemma update_other: "k' \<noteq> k \<Longrightarrow> map_of (AList.update k v kv) k' = map_of kv k'"
  by (simp add: update_conv')

lemma starts_with_iff: "starts_with sub s \<longleftrightarrow> (\<exists>post. s = sub @ post)"
  by (induction sub s rule: starts_with.induct) auto

lemma str_contains_iff: "str_contains sub s \<longleftrightarrow> (\<exists>pre post. s = pre @ sub @ post)"
proof (induction s)
  case Nil
  then show ?case by simp
next
  case (Cons c cs)
  show ?case
  proof
    assume "str_contains sub (c # cs)"
    then consider "starts_with sub (c # cs)" | "str_contains sub cs" by auto
    then show "\<exists>pre post. c # cs = pre @ sub @ post"
    proof cases
      case 1
      then obtain post where "c # cs = sub @ post" unfolding starts_with_iff by blast
      then have "c # cs = [] @ sub @ post" by simp
      then show ?thesis by blast
    next
      case 2
      then obtain pre post where "cs = pre @ sub @ post" using Cons.IH by blast
      then have "c # cs = (c # pre) @ sub @ post" by simp
      then show ?thesis by blast
    qed
  next
    assume "\<exists>pre post. c # cs = pre @ sub @ post"
    then obtain pre post where e: "c # cs = pre @ sub @ post" by blast
    show "str_contains sub (c # cs)"
    proof (cases pre)
      case Nil
      then have "starts_with sub (c # cs)" using e unfolding starts_with_iff by auto
      then show ?thesis by simp
    next
      case (Cons a pre')
      then have "cs = pre' @ sub @ post" using e by simp
      then have "str_contains sub cs" using Cons.IH by blast
      then show ?thesis by simp
    qed
  qed
qed

lemma join_holds_part:
  "p \<in> set ps \<Longrightarrow> \<exists>pre post. join sep ps = pre @ p @ post"
proof (induction sep ps rule: join.induct)
  case (1 sep)
  then show ?case by simp
next
  case (2 sep q)
  then have "join sep [q] = [] @ p @ []" by simp
  then show ?case by blast
next
  case (3 sep q r ps)
  show ?case
  proof (cases "p = q")
    case True
    then have "join sep (q # r # ps) = [] @ p @ (sep @ join sep (r # ps))" by simp
    then show ?thesis by blast
  next
    case False
    then have "p \<in> set (r # ps)" using 3(2) by simp
    then obtain pre post where "join sep (r # ps) = pre @ p @ post" using 3(1) by blast
    then have "join sep (q # r # ps) = (q @ sep @ pre) @ p @ post" by simp
    then show ?thesis by blast
  qed
qed

lemma strip_ends_list: "strip_ends (py_str (JList xs)) = join '', '' (map py_repr xs)"
  by (simp add: strip_ends_def py_str_def butlast_append)

lemma collect_map_Inr:
  "(\<And>x. x \<in> set xs \<Longrightarrow> f x = Inr (g x)) \<Longrightarrow> collect (map f xs) = Inr (map g xs)"
  by (induction xs) auto

lemma slice_to_map: "slice_to n (map f xs) = map f (slice_to n xs)"
  by (simp add: slice_to_def take_map)

lemma set_slice_to: "set (slice_to n xs) \<subseteq> set xs"
  by (auto simp: slice_to_def dest: in_set_takeD)

lemma build_links_distinct:
  assumes "distinct (map fst dbd)"
  shows "build_links dbd (slice_to n (map fst dbd))
         = Inr (map (\<lambda>p. snd p @ ''/about'') (slice_to n dbd))"
proof -
  have "\<And>p. p \<in> set (slice_to n dbd) \<Longrightarrow>
          (case map_of dbd (fst p) of None \<Rightarrow> Inl KeyError | Some l \<Rightarrow> Inr (l @ ''/about''))
          = Inr (snd p @ ''/about'')"
  proof -
    fix p assume "p \<in> set (slice_to n dbd)"
    then have "p \<in> set dbd" by (rule subsetD[OF set_slice_to])
    then have "(fst p, snd p) \<in> set dbd" by simp
    then have "map_of dbd (fst p) = Some (snd p)" using assms by (simp only: map_of_eq_Some_iff)
    then show "(case map_of dbd (fst p) of None \<Rightarrow> Inl KeyError | Some l \<Rightarrow> Inr (l @ ''/about''))
          = Inr (snd p @ ''/about'')" by simp
  qed
  then have "collect (map (\<lambda>p. case map_of dbd (fst p) of None \<Rightarrow> Inl KeyError
                                   | Some l \<Rightarrow> Inr (l @ ''/about'')) (slice_to n dbd))
             = Inr (map (\<lambda>p. snd p @ ''/about'') (slice_to n dbd))"
    by (rule collect_map_Inr)
  then show ?thesis by (simp add: build_links_def slice_to_map comp_def)
qed

lemma distinct_slice_to: "distinct xs \<Longrightarrow> distinct (slice_to n xs)"
  by (simp add: slice_to_def)

lemma load_dict_Inr:
  "load_dict name w = Inr dbd \<Longrightarrow> files w (name @ ''.pkl'') = Some (Pickle dbd)"
  by (auto simp: load_dict_def split: option.splits stored_file.splits)

lemma main_Inr:
  assumes "main E n lim path verb w = (Inr db, w')"
  shows "\<exists>dbd links NPs_dict w2 NPs_dict' w3.
           files w (path @ ''/links.pkl'') = Some (Pickle dbd)
         \<and> build_links dbd (slice_to n (map fst dbd)) = Inr links
         \<and> get_np_info E lim links (slice_to n (map fst dbd)) verb
              (w\<lparr>clock_reads := clock_reads w + 1\<rparr>) = (Inr NPs_dict, w2)
         \<and> create_database NPs_dict False w2 = (Inr db, NPs_dict', w3)
         \<and> w' = (if verb
                  then print ([CHR 0x0A] @ ''Time taken: ''
                         @ timedelta_str E (now E (clock_reads w)) (now E (clock_reads w3)))
                         (w3\<lparr>clock_reads := clock_reads w3 + 1\<rparr>)
                  else w3\<lparr>clock_reads := clock_reads w3 + 1\<rparr>)"
proof -
  define w1 where "w1 = w\<lparr>clock_reads := clock_reads w + 1\<rparr>"
  have rc: "read_clock E w = (now E (clock_reads w), w1)" by (simp add: read_clock_def w1_def)
  show ?thesis
  proof (cases "load_dict (path @ ''/links'') w1")
    case (Inl e)
    with assms rc show ?thesis by (simp add: main_def)
  next
    case ld: (Inr dbd)
    have f: "files w (path @ ''/links.pkl'') = Some (Pickle dbd)"
      using load_dict_Inr[OF ld] by (simp add: w1_def)
    show ?thesis
    proof (cases "build_links dbd (slice_to n (map fst dbd))")
      case (Inl e)
      with assms rc ld show ?thesis by (simp add: main_def)
    next
      case bl: (Inr links)
      obtain r2 w2 where g: "get_np_info E lim links (slice_to n (map fst dbd)) verb w1 = (r2, w2)"
        by (cases "get_np_info E lim links (slice_to n (map fst dbd)) verb w1")
      show ?thesis
      proof (cases r2)
        case (Inl e)
        with assms rc ld bl g show ?thesis by (simp add: main_def)
      next
        case r2: (Inr NPs_dict)
        obtain r3 d3 w3 where c: "create_database NPs_dict False w2 = (r3, d3, w3)"
          by (cases "create_database NPs_dict False w2")
        show ?thesis
        proof (cases r3)
          case (Inl e)
          with assms rc ld bl g r2 c show ?thesis by (simp add: main_def)
        next
          case r3: (Inr db3)
          have rc3: "read_clock E w3 = (now E (clock_reads w3), w3\<lparr>clock_reads := clock_reads w3 + 1\<rparr>)"
            by (simp add: read_clock_def)
          from assms rc ld bl g r2 c r3 rc3 have
            "db3 = db" and "w' = (if verb
                  then print ([CHR 0x0A] @ ''Time taken: ''
                         @ timedelta_str E (now E (clock_reads w)) (now E (clock_reads w3)))
                         (w3\<lparr>clock_reads := clock_reads w3 + 1\<rparr>)
                  else w3\<lparr>clock_reads := clock_reads w3 + 1\<rparr>)"
            by (simp_all add: main_def split: if_splits)
          with f bl g[unfolded w1_def] r2 c r3 show ?thesis by blast
        qed
      qed
    qed
  qed
qed

lemma map_nth_upt: "k \<le> length xs \<Longrightarrow> map (\<lambda>i. f (xs ! i)) [0..<k] = map f (take k xs)"
  by (rule nth_equalityI) simp_all

lemma succeeded_clock: "succeeded E (w\<lparr>clock_reads := c\<rparr>) links = succeeded E w links"
  by (rule ext) (simp add: succeeded_def extraction_def)

lemma str_nat_1: "n < 10 \<Longrightarrow> str_nat n = [digit_char n]"
  by (subst str_nat.simps) simp

lemma str_nat_2: "10 \<le> n \<Longrightarrow> n < 100 \<Longrightarrow> str_nat n = [digit_char (n div 10), digit_char (n mod 10)]"
  by (subst str_nat.simps) (simp add: str_nat_1)

lemma str_nat_3:
  "100 \<le> n \<Longrightarrow> n < 1000 \<Longrightarrow>
   str_nat n = [digit_char (n div 100), digit_char (n div 10 mod 10), digit_char (n mod 10)]"
  by (subst str_nat.simps) (simp add: str_nat_2 div_mult2_eq[symmetric])

lemma str_nat_4:
  "1000 \<le> n \<Longrightarrow> n < 10000 \<Longrightarrow>
   str_nat n = [digit_char (n div 1000), digit_char (n div 100 mod 10),
                digit_char (n div 10 mod 10), digit_char (n mod 10)]"
  by (subst str_nat.simps) (simp add: str_nat_3 div_mult2_eq[symmetric])

lemma tens_digit: "((y::nat) mod 100) div 10 = y div 10 mod 10"
proof -
  have "y mod (10 * 10) = 10 * (y div 10 mod 10) + y mod 10" by (rule mod_mult2_eq)
  then have "y mod 100 = 10 * (y div 10 mod 10) + y mod 10" by simp
  then show ?thesis by simp
qed

lemma units_digit: "(y::nat) mod 100 mod 10 = y mod 10"
  by (simp add: mod_mod_cancel)

lemma zfill_2: "n < 100 \<Longrightarrow> zfill 2 (str_nat n) = two_digits n"
proof (cases "n < 10")
  case True
  then show ?thesis by (simp add: zfill_def str_nat_1 two_digits_def digit_char_def)
next
  case False
  assume "n < 100"
  with False show ?thesis by (simp add: zfill_def str_nat_2 two_digits_def)
qed

lemma year_stamp:
  assumes "1000 \<le> y" "y \<le> 9999"
  shows "drop 2 (zfill 4 (str_nat y)) = two_digits (y mod 100)"
proof -
  have "str_nat y = [digit_char (y div 1000), digit_char (y div 100 mod 10),
                digit_char (y div 10 mod 10), digit_char (y mod 10)]"
    using assms by (intro str_nat_4) simp_all
  then have "drop 2 (zfill 4 (str_nat y)) = [digit_char (y div 10 mod 10), digit_char (y mod 10)]"
    by (simp add: zfill_def)
  then show ?thesis by (simp add: two_digits_def tens_digit units_digit)
qed

lemma strftime_stamp:
  assumes "valid_datetime t"
  shows "drop 2 (strftime t) = file_stamp t"
proof -
  have y: "drop 2 (zfill 4 (str_nat (year t))) = two_digits (year t mod 100)"
    using assms by (intro year_stamp) (simp_all add: valid_datetime_def)
  have l: "length (zfill 4 (str_nat (year t))) = 4"
    using assms by (simp add: zfill_def str_nat_4 valid_datetime_def)
  have m: "zfill 2 (str_nat (month t)) = two_digits (month t)"
    "zfill 2 (str_nat (day t)) = two_digits (day t)"
    "zfill 2 (str_nat (hour t)) = two_digits (hour t)"
    "zfill 2 (str_nat (minute t)) = two_digits (minute t)"
    using assms by (simp_all add: zfill_2 valid_datetime_def)
  show ?thesis unfolding strftime_def file_stamp_def using y l m by simp
qed

lemma entry_keys:
  assumes "np_entry E w links NPs_names i p" and "flattened (snd p) r'"
  shows "\<exists>kv. json_loads E (stdout (extraction E w links i)) = Inr (JObject kv)
           \<and> set (record_keys r') = insert ''link'' (insert ''name'' (fst ` set kv))"
proof -
  from assms(1) obtain kv where
    j: "json_loads E (stdout (extraction E w links i)) = Inr (JObject kv)"
    and p: "snd p = JObject (AList.update ''link'' (JString (hd (rsplit1 CHR ''/'' (links ! i))))
                            (AList.update ''name'' (JString (NPs_names ! i)) kv))"
    unfolding np_entry_def by blast
  have "record_keys r' = record_keys (snd p)" using assms(2) by (rule flattened_keys)
  then have "set (record_keys r') = insert ''link'' (insert ''name'' (fst ` set kv))"
    unfolding p by (simp add: record_keys_def keys_update)
  with j show ?thesis by blast
qed

lemma save_db_file:
  "files (save_db E db path verb ws)
     (path @ ''associations_'' @ drop 2 (strftime (now E (clock_reads ws))) @ ''.csv'') = Some (Csv db)"
  by (simp add: save_db_def read_clock_def Let_def print_def)

lemma script_file:
  assumes "script E a w = (Inr db, w')"
  shows "files w' (arg_path a @ ''associations_''
            @ drop 2 (strftime (now E (clock_reads w + 2))) @ ''.csv'') = Some (Csv db)"
proof -
  obtain r wm where m: "main E (arg_n_associations a) (arg_limit a) (arg_source_link a)
                          (arg_verbose a) w = (r, wm)"
    by (cases "main E (arg_n_associations a) (arg_limit a) (arg_source_link a) (arg_verbose a) w")
  show ?thesis
  proof (cases r)
    case (Inl e)
    with assms m show ?thesis by (simp add: script_def)
  next
    case (Inr db0)
    with assms m have db0: "db0 = db"
      and w': "w' = (if arg_verbose a
                     then print (frame_str E db) (save_db E db (arg_path a) (arg_verbose a) wm)
                     else save_db E db (arg_path a) (arg_verbose a) wm)"
      by (auto simp: script_def Let_def)
    from m Inr db0 have m': "main E (arg_n_associations a) (arg_limit a) (arg_source_link a)
                          (arg_verbose a) w = (Inr db, wm)" by simp
    from main_Inr[OF m'] obtain dbd links NPs_dict w2 NPs_dict' w3 where
      f: "files w (arg_source_link a @ ''/links.pkl'') = Some (Pickle dbd)"
      and bl: "build_links dbd (slice_to (arg_n_associations a) (map fst dbd)) = Inr links"
      and g: "get_np_info E (arg_limit a) links (slice_to (arg_n_associations a) (map fst dbd))
            (arg_verbose a) (w\<lparr>clock_reads := clock_reads w + 1\<rparr>) = (Inr NPs_dict, w2)"
      and c: "create_database NPs_dict False w2 = (Inr db, NPs_dict', w3)"
      and wm: "wm = (if arg_verbose a
                  then print ([CHR 0x0A] @ ''Time taken: ''
                         @ timedelta_str E (now E (clock_reads w)) (now E (clock_reads w3)))
                         (w3\<lparr>clock_reads := clock_reads w3 + 1\<rparr>)
                  else w3\<lparr>clock_reads := clock_reads w3 + 1\<rparr>)"
      by blast
    have "w3 = w2" using create_database_Inr(5)[OF c get_np_info_Inr(7)[OF g]] by simp
    moreover have "clock_reads w2 = clock_reads w + 1" using get_np_info_Inr(6)[OF g] by simp
    ultimately have cr: "clock_reads wm = clock_reads w + 2" unfolding wm by (simp add: print_def)
    have "files w' = files (save_db E db (arg_path a) (arg_verbose a) wm)"
      unfolding w' by (simp add: print_def)
    then show ?thesis using save_db_file[of E db "arg_path a" "arg_verbose a" wm] cr by simp
  qed
qed

lemma for_each_raises:
  assumes "for_each body xs s w = (Inr s1, w1)" and "body x s1 w1 = (Inl e, w2)"
  shows "for_each body (xs @ x # ys) s w = (Inl e, w2)"
  using assms by (simp add: for_each_append)

lemma find_websites_unfold:
  assumes "result = subprocess_run E (length (spawned w))
                      (scraper_argv (discovery_prompt source_link) source_link)"
    and "w0 = w\<lparr>spawned := spawned w @ [scraper_argv (discovery_prompt source_link) source_link]\<rparr>"
    and "w1 = (if verb then print ''Finding the names of the associations done.'' w0 else w0)"
  shows "find_websites E source_link search_engine verb w =
     (if stdout result \<noteq> []
      then (case json_loads E (stdout result) of
              Inl e \<Rightarrow> (Inl e, w1)
            | Inr resdict \<Rightarrow>
           (case first_value resdict of
              Inl e \<Rightarrow> (Inl e, w1)
            | Inr NPs_names \<Rightarrow>
           (case py_len NPs_names of
              Inl e \<Rightarrow> (Inl e, w1)
            | Inr len_names \<Rightarrow>
           (case for_each (fw_step E search_engine NPs_names len_names) [0..<len_names] [] w1 of
              (Inl e, w2) \<Rightarrow> (Inl e, w2)
            | (Inr NPs_links, w2) \<Rightarrow>
                (Inr (Sites NPs_names NPs_links),
                 if verb then print ''Finding the links of the associations done.'' w2
                 else w2)))))
      else (Inr (ErrorText (stderr result)), w1))"
  unfolding find_websites_def run_scraper_def Let_def assms by simp

section \<open>Running the samples\<close>

text \<open>The equations that run the pipeline on a concrete input.\<close>

lemmas np_eval = get_np_info_def np_step_def getitem_list_def run_scraper_def
  setitem_def print_def Let_def rsplit1_def upt_rec

lemmas db_eval = create_database_def db_step_def getitem_key_def setitem_def DataFrame_row_def
  broadcast_def pd_concat_def strip_ends_def py_str_def repr_str_def repr_quote_def
  repr_char_def printable_def db_columns_def Let_def

lemmas sample_defs = sample_env_def quiet_env_def fresh_world_def sample_links_def sample_names_def

lemmas main_eval = main_def read_clock_def load_dict_def build_links_def slice_to_def

lemmas script_eval = script_def save_db_def strftime_def zfill_def

lemmas fw_eval = find_websites_def run_scraper_def first_value_def getitem_key_def py_len_def
  fw_step_def getitem_int_def getitem_list_def resolve_def duckduckgo_search_def max_retries_def
  initial_delay_def first_href_def hashable_def py_str_def print_def sleep_def Let_def upt_rec

section \<open>The backoff of the rate-limited search\<close>

text \<open>
  While the search answers with a rate-limit error, attempt \<open>a\<close> of the ten sleeps
  \<open>5 * 2 ^ a\<close> seconds and goes on; the tenth attempt re-raises what it caught.
\<close>

lemma ddg_attempts_ratelimited:
  assumes "a < 10"
    and "\<forall>j < 10 - a. \<exists>msg. ddgs_text E (length (searched w) + j) (query @ '' BC'')
            = Raised (DuckDuckGoSearchException msg) \<and> str_contains ''Ratelimit'' msg"
  shows "\<exists>msg w'. ddg_attempts E query [a..<10] w = (Inl (DuckDuckGoSearchException msg), w')
           \<and> ddgs_text E (length (searched w) + (9 - a)) (query @ '' BC'') = Raised (DuckDuckGoSearchException msg)
           \<and> slept w' = slept w @ map (\<lambda>k. 5 * 2 ^ k) [a..<9]
           \<and> length (searched w') = length (searched w) + (10 - a)"
  using assms
proof (induction k \<equiv> "9 - a" arbitrary: a w)
  case 0
  then have a: "a = 9" by simp
  have "\<exists>msg. ddgs_text E (length (searched w) + 0) (query @ '' BC'')
            = Raised (DuckDuckGoSearchException msg) \<and> str_contains ''Ratelimit'' msg"
    using 0(3)[rule_format, of 0] a by simp
  then obtain msg where m: "ddgs_text E (length (searched w)) (query @ '' BC'')
            = Raised (DuckDuckGoSearchException msg)" by auto
  have "[a..<10] = [9]" using a by (simp add: upt_conv_Cons)
  then show ?case using m a by (simp add: max_retries_def)
next
  case (Suc k)
  then have a: "a < 9" by simp
  have "\<exists>msg. ddgs_text E (length (searched w) + 0) (query @ '' BC'')
            = Raised (DuckDuckGoSearchException msg) \<and> str_contains ''Ratelimit'' msg"
    using Suc(4)[rule_format, of 0] a by simp
  then obtain msg where m: "ddgs_text E (length (searched w)) (query @ '' BC'')
            = Raised (DuckDuckGoSearchException msg)" "str_contains ''Ratelimit'' msg" by auto
  define w2 where "w2 = sleep (5 * 2 ^ a) (print (''Rate limit hit. Waiting '' @ str_nat (5 * 2 ^ a)
                                  @ '' seconds before retrying...'') (w\<lparr>searched := searched w @ [query @ '' BC'']\<rparr>))"
  have w2s: "length (searched w2) = Suc (length (searched w))" "slept w2 = slept w @ [5 * 2 ^ a]"
    by (simp_all add: w2_def sleep_def print_def)
  have step: "ddg_attempts E query [a..<10] w = ddg_attempts E query [Suc a..<10] w2"
    using m a by (simp add: upt_conv_Cons max_retries_def initial_delay_def w2_def Let_def)
  have hyp: "\<forall>j < 10 - Suc a. \<exists>msg. ddgs_text E (length (searched w2) + j) (query @ '' BC'')
            = Raised (DuckDuckGoSearchException msg) \<and> str_contains ''Ratelimit'' msg"
  proof (intro allI impI)
    fix j assume "j < 10 - Suc a"
    then have "Suc j < 10 - a" by simp
    then show "\<exists>msg. ddgs_text E (length (searched w2) + j) (query @ '' BC'')
            = Raised (DuckDuckGoSearchException msg) \<and> str_contains ''Ratelimit'' msg"
      using Suc(4)[rule_format, of "Suc j"] w2s(1) by simp
  qed
  have "k = 9 - Suc a" using Suc(2) by simp
  from Suc(1)[OF this _ hyp] a
  obtain msg' w' where r: "ddg_attempts E query [Suc a..<10] w2 = (Inl (DuckDuckGoSearchException msg'), w')"
    "ddgs_text E (length (searched w2) + (9 - Suc a)) (query @ '' BC'') = Raised (DuckDuckGoSearchException msg')"
    "slept w' = slept w2 @ map (\<lambda>k. 5 * 2 ^ k) [Suc a..<9]"
    "length (searched w') = length (searched w2) + (10 - Suc a)"
    by auto
  have "length (searched w2) + (9 - Suc a) = length (searched w) + (9 - a)" using w2s a by simp
  moreover have "[a..<9] = a # [Suc a..<9]" using a by (simp add: upt_conv_Cons)
  ultimately show ?case using step r w2s a by auto
qed

lemma ddg_attempts_returns:
  "ddg_attempts E query as w = (Inr u, w') \<Longrightarrow>
     \<exists>i rs. ddgs_text E i (query @ '' BC'') = Results rs \<and> first_href rs = Inr u"
proof (induction as arbitrary: w)
  case Nil then show ?case by simp
next
  case (Cons a as)
  then show ?case
    by (auto simp: Let_def split: search_outcome.splits py_error.splits if_splits)
qed

text \<open>
  C1. When each of the ten attempts of \<^verbatim>\<open>duckduckgo_search\<close> fails with a rate-limit error,
  the seconds slept are \<open>5 * 2 ^ k\<close> for \<open>k = 0, ..., 8\<close>, in this order and nothing else,
  and the tenth attempt raises instead of returning. Whatever the searches answer, the
  function returns a value only when it is the \<^verbatim>\<open>href\<close> of the first result of a search
  it made: it never returns without a URL.
\<close>

theorem duckduckgo_search_backoff:
  "((\<forall>j<10. \<exists>msg. ddgs_text E (length (searched w) + j) (query @ '' BC'')
                    = Raised (DuckDuckGoSearchException msg) \<and> str_contains ''Ratelimit'' msg)
     \<longrightarrow> (\<exists>msg w'. duckduckgo_search E query w = (Inl (DuckDuckGoSearchException msg), w')
            \<and> slept w' = slept w @ map (\<lambda>k. 5 * 2 ^ k) [0..<9]
            \<and> length (searched w') = length (searched w) + 10))
   \<and> (\<forall>u w'. duckduckgo_search E query w = (Inr u, w') \<longrightarrow>
         (\<exists>i rs. ddgs_text E i (query @ '' BC'') = Results rs \<and> first_href rs = Inr u))"
proof (intro conjI impI allI)
  assume h: "\<forall>j<10. \<exists>msg. ddgs_text E (length (searched w) + j) (query @ '' BC'')
                    = Raised (DuckDuckGoSearchException msg) \<and> str_contains ''Ratelimit'' msg"
  have "\<forall>j<10 - 0. \<exists>msg. ddgs_text E (length (searched w) + j) (query @ '' BC'')
                    = Raised (DuckDuckGoSearchException msg) \<and> str_contains ''Ratelimit'' msg"
    using h by simp
  from ddg_attempts_ratelimited[OF _ this]
  show "\<exists>msg w'. duckduckgo_search E query w = (Inl (DuckDuckGoSearchException msg), w')
            \<and> slept w' = slept w @ map (\<lambda>k. 5 * 2 ^ k) [0..<9]
            \<and> length (searched w') = length (searched w) + 10"
    unfolding duckduckgo_search_def max_retries_def by fastforce
next
  fix u w'
  assume "duckduckgo_search E query w = (Inr u, w')"
  then show "\<exists>i rs. ddgs_text E i (query @ '' BC'') = Results rs \<and> first_href rs = Inr u"
    unfolding duckduckgo_search_def by (rule ddg_attempts_returns)
qed

lemma delays_eval: "map (\<lambda>k. 5 * 2 ^ k) [0..<9] = [5, 10, 20, 40, 80, 160, 320, 640, 1280 :: nat]"
  by (simp add: upt_rec)

theorem duckduckgo_search_backoff_witness:
  "(\<exists>msg w'. duckduckgo_search ratelimited_env ''Food Bank'' fresh_world
                 = (Inl (DuckDuckGoSearchException msg), w')
      \<and> slept w' = [5, 10, 20, 40, 80, 160, 320, 640, 1280] \<and> length (searched w') = 10)
   \<and> fst (duckduckgo_search answering_env ''Food Bank'' fresh_world) = Inr ''http://foodbank.example''
   \<and> (\<exists>i rs. ddgs_text answering_env i ''Food Bank BC'' = Results rs
         \<and> first_href rs = Inr ''http://foodbank.example'')"
proof -
  have r: "fst (duckduckgo_search answering_env ''Food Bank'' fresh_world) = Inr ''http://foodbank.example''"
    by (simp add: duckduckgo_search_def max_retries_def initial_delay_def upt_rec answering_env_def
        quiet_env_def fresh_world_def print_def sleep_def first_href_def Let_def)
  then obtain w' where "duckduckgo_search answering_env ''Food Bank'' fresh_world = (Inr ''http://foodbank.example'', w')"
    by (cases "duckduckgo_search answering_env ''Food Bank'' fresh_world") simp
  with duckduckgo_search_backoff[of answering_env fresh_world "''Food Bank''"]
  have a: "\<exists>i rs. ddgs_text answering_env i ''Food Bank BC'' = Results rs
         \<and> first_href rs = Inr ''http://foodbank.example''" by simp
  have h: "\<forall>j<10. \<exists>msg. ddgs_text ratelimited_env (length (searched fresh_world) + j) (''Food Bank'' @ '' BC'')
                    = Raised (DuckDuckGoSearchException msg) \<and> str_contains ''Ratelimit'' msg"
    by (simp add: ratelimited_env_def quiet_env_def)
  with duckduckgo_search_backoff[of ratelimited_env fresh_world "''Food Bank''"]
  have b: "\<exists>msg w'. duckduckgo_search ratelimited_env ''Food Bank'' fresh_world
                 = (Inl (DuckDuckGoSearchException msg), w')
      \<and> slept w' = [5, 10, 20, 40, 80, 160, 320, 640, 1280] \<and> length (searched w') = 10"
    by (simp add: delays_eval fresh_world_def)
  from a b r show ?thesis by blast
qed

section \<open>The size of the table\<close>

text \<open>
  C2. For every batch size \<open>n\<close> (the number of names and links handed over) and every
  \<open>limit \<le> n\<close>, the table that \<^verbatim>\<open>create_database\<close> makes of what \<^verbatim>\<open>get_np_info\<close> returned has at
  most \<open>limit\<close> rows, and no more rows than there are organizations among the first
  \<open>limit\<close> whose extraction returned a non-empty stdout.
\<close>

theorem table_rows_bounded:
  assumes "limit \<le> n" and "length links = n" and "length NPs_names = n"
    and "get_np_info E (int limit) links NPs_names verb w = (Inr NPs_dict, w1)"
    and "create_database NPs_dict verb' w1 = (Inr db, NPs_dict', w2)"
  shows "length (rows db) \<le> limit
       \<and> length (rows db) \<le> length (filter (succeeded E w links) [0..<limit])"
proof -
  note d = get_np_info_Inr(7)[OF assms(4)]
  have "length NPs_dict = length NPs_dict'"
    using create_database_Inr(2)[OF assms(5) d] by (rule list_all2_lengthD)
  moreover have "length NPs_dict' = length (rows db)"
    using create_database_Inr(3)[OF assms(5) d] by (rule list_all2_lengthD)
  moreover have "length NPs_dict \<le> length (filter (succeeded E w links) [0..<limit])"
    using get_np_info_Inr(8)[OF assms(4)] by simp
  moreover have "length (filter (succeeded E w links) [0..<limit]) \<le> limit"
    using length_filter_le[of "succeeded E w links" "[0..<limit]"] by simp
  ultimately show ?thesis by simp
qed

theorem table_rows_bounded_witness:
  "(2::nat) \<le> 3 \<and> length sample_links = 3 \<and> length sample_names = 3
   \<and> (\<exists>NPs_dict w1 db NPs_dict' w2.
         get_np_info sample_env (int 2) sample_links sample_names False fresh_world = (Inr NPs_dict, w1)
       \<and> create_database NPs_dict False w1 = (Inr db, NPs_dict', w2)
       \<and> length (rows db) = 1
       \<and> length (rows db) \<le> 2
       \<and> length (rows db) \<le> length (filter (succeeded sample_env fresh_world sample_links) [0..<2]))"
proof -
  define d where "d = [(''Food Bank'',
        JObject [(''name'', JString ''Food Bank''), (''location'', JString ''Y''),
          (''type'', JString ''health''),
          (''contacts'', JList [JString ''a@x.org'', JString ''555-1234'']),
          (''link'', JString ''http://foodbank.example/team'')])]"
  have "fst (get_np_info sample_env (int 2) sample_links sample_names False fresh_world) = Inr d"
    by (simp add: np_eval sample_defs d_def)
  then obtain w1 where
    g: "get_np_info sample_env (int 2) sample_links sample_names False fresh_world = (Inr d, w1)"
    by (cases "get_np_info sample_env (int 2) sample_links sample_names False fresh_world") simp
  have "\<exists>db d'. create_database d False w1 = (Inr db, d', w1) \<and> length (rows db) = 1"
    by (simp add: db_eval d_def)
  then obtain db d' where c: "create_database d False w1 = (Inr db, d', w1)"
    and r: "length (rows db) = 1" by blast
  have l: "length sample_links = 3" "length sample_names = 3" by (simp_all add: sample_defs)
  have "(2::nat) \<le> 3" by simp
  from table_rows_bounded[OF this l g c] g c r l show ?thesis by auto
qed

section \<open>The name and the link of a stored record\<close>

text \<open>
  C3. For every organization whose extraction succeeds, in a call of \<^verbatim>\<open>get_np_info\<close> that
  returns and is given distinct names, the answer parses to a JSON object, and the record
  stored under the caller's name has that name as its \<^verbatim>\<open>name\<close> and, as its \<^verbatim>\<open>link\<close>, the
  caller's source URL without its final path segment, whatever \<^verbatim>\<open>name\<close> and \<^verbatim>\<open>link\<close> the
  extractor's JSON held.
\<close>

theorem stored_name_and_link:
  assumes "get_np_info E lim links NPs_names verb w = (Inr NPs_dict, w')"
    and "distinct (take (nat lim) NPs_names)"
    and "n < nat lim" and "succeeded E w links n"
  shows "\<exists>kv r. json_loads E (stdout (extraction E w links n)) = Inr (JObject kv)
          \<and> map_of NPs_dict (NPs_names ! n) = Some r
          \<and> getitem_key r ''name'' = Inr (JString (NPs_names ! n))
          \<and> getitem_key r ''link'' = Inr (JString (hd (rsplit1 CHR ''/'' (links ! n))))
          \<and> (CHR ''/'' \<in> set (links ! n) \<longrightarrow>
               (\<exists>seg. links ! n = hd (rsplit1 CHR ''/'' (links ! n)) @ ''/'' @ seg
                      \<and> CHR ''/'' \<notin> set seg))"
proof -
  let ?idx = "filter (succeeded E w links) [0..<nat lim]"
  note ents = get_np_info_entries[OF assms(1,2)]
  have "n \<in> set ?idx" using assms(3,4) by simp
  then obtain j where j: "j < length ?idx" "?idx ! j = n" by (metis in_set_conv_nth)
  have len: "length ?idx = length NPs_dict" using ents by (rule list_all2_lengthD)
  have "np_entry E w links NPs_names (?idx ! j) (NPs_dict ! j)"
    using ents j(1) by (rule list_all2_nthD)
  then have e: "np_entry E w links NPs_names n (NPs_dict ! j)" using j(2) by simp
  then obtain kv where
    kv: "json_loads E (stdout (extraction E w links n)) = Inr (JObject kv)"
    and k: "fst (NPs_dict ! j) = NPs_names ! n"
    and v: "snd (NPs_dict ! j) = JObject (AList.update ''link'' (JString (hd (rsplit1 CHR ''/'' (links ! n))))
                            (AList.update ''name'' (JString (NPs_names ! n)) kv))"
    unfolding np_entry_def by blast
  let ?r = "snd (NPs_dict ! j)"
  have "NPs_dict ! j \<in> set NPs_dict" using j(1) len by simp
  then have "(NPs_names ! n, ?r) \<in> set NPs_dict" using k by (metis prod.collapse)
  then have m: "map_of NPs_dict (NPs_names ! n) = Some ?r"
    using get_np_info_Inr(7)[OF assms(1)] by simp
  have a: "getitem_key ?r ''name'' = Inr (JString (NPs_names ! n))"
    unfolding v by (simp add: getitem_key_def update_conv')
  have b: "getitem_key ?r ''link'' = Inr (JString (hd (rsplit1 CHR ''/'' (links ! n))))"
    unfolding v by (simp add: getitem_key_def update_conv')
  have c: "CHR ''/'' \<in> set (links ! n) \<longrightarrow>
               (\<exists>seg. links ! n = hd (rsplit1 CHR ''/'' (links ! n)) @ ''/'' @ seg
                      \<and> CHR ''/'' \<notin> set seg)"
    using rsplit1_hd[of "CHR ''/''" "links ! n"] by simp
  from kv m a b c show ?thesis by blast
qed

theorem stored_name_and_link_witness:
  "distinct (take (nat 3) sample_names) \<and> 0 < nat 3
   \<and> succeeded sample_env fresh_world sample_links 0
   \<and> CHR ''/'' \<in> set (sample_links ! 0)
   \<and> json_loads sample_env (stdout (extraction sample_env fresh_world sample_links 0))
       = Inr (JObject [(''name'', JString ''X''), (''location'', JString ''Y''),
                       (''type'', JString ''health''),
                       (''contacts'', JList [JString ''a@x.org'', JString ''555-1234'']),
                       (''link'', JString ''http://wrong.example'')])
   \<and> (\<exists>NPs_dict w' r.
         get_np_info sample_env 3 sample_links sample_names False fresh_world = (Inr NPs_dict, w')
       \<and> map_of NPs_dict ''Food Bank'' = Some r
       \<and> getitem_key r ''name'' = Inr (JString ''Food Bank'')
       \<and> getitem_key r ''link'' = Inr (JString ''http://foodbank.example/team''))"
proof -
  have "\<exists>d. fst (get_np_info sample_env 3 sample_links sample_names False fresh_world) = Inr d"
    by (simp add: np_eval sample_defs)
  then obtain d w' where
    g: "get_np_info sample_env 3 sample_links sample_names False fresh_world = (Inr d, w')"
    by (cases "get_np_info sample_env 3 sample_links sample_names False fresh_world") auto
  have h: "distinct (take (nat 3) sample_names)" "0 < nat 3"
    "succeeded sample_env fresh_world sample_links 0"
    by (simp_all add: sample_defs succeeded_def extraction_def)
  have s: "CHR ''/'' \<in> set (sample_links ! 0)" by (simp add: sample_defs)
  have j: "json_loads sample_env (stdout (extraction sample_env fresh_world sample_links 0))
       = Inr (JObject [(''name'', JString ''X''), (''location'', JString ''Y''),
                       (''type'', JString ''health''),
                       (''contacts'', JList [JString ''a@x.org'', JString ''555-1234'']),
                       (''link'', JString ''http://wrong.example'')])"
    by (simp add: sample_defs extraction_def)
  have n: "sample_names ! 0 = ''Food Bank''" by (simp add: sample_defs)
  have l: "hd (rsplit1 CHR ''/'' (sample_links ! 0)) = ''http://foodbank.example/team''"
    by (simp add: sample_defs rsplit1_def)
  from stored_name_and_link[OF g h] obtain r where
    "map_of d (sample_names ! 0) = Some r"
    "getitem_key r ''name'' = Inr (JString (sample_names ! 0))"
    "getitem_key r ''link'' = Inr (JString (hd (rsplit1 CHR ''/'' (sample_links ! 0))))"
    by blast
  with n l have "map_of d ''Food Bank'' = Some r \<and> getitem_key r ''name'' = Inr (JString ''Food Bank'')
       \<and> getitem_key r ''link'' = Inr (JString ''http://foodbank.example/team'')" by simp
  with g h s j show ?thesis by blast
qed

section \<open>A failed extraction\<close>

text \<open>
  C4. When, among the first \<open>limit\<close> organizations (with distinct names), the extraction
  returns an empty stdout for organization \<open>k\<close> and for no other, and the run returns a
  table, then the table has exactly \<open>limit - 1\<close> rows, which are the rows of the other
  organizations in their order, and no row carries the name of \<open>k\<close>; the run printed the
  diagnostic with the position of \<open>k\<close>, its name and the stderr text; and it started exactly
  one subprocess for each organization, so none again for \<open>k\<close>.
\<close>

theorem failed_extraction_is_skipped:
  assumes "k < limit"
    and "\<forall>i<limit. succeeded E w links i = (i \<noteq> k)"
    and "distinct (take limit NPs_names)"
    and "get_np_info E (int limit) links NPs_names verb w = (Inr NPs_dict, w1)"
    and "create_database NPs_dict verb' w1 = (Inr db, NPs_dict', w2)"
  shows "length (rows db) = limit - 1
    \<and> map (\<lambda>row. cell_of row ''name'') (rows db)
        = map (\<lambda>i. Val (JString (NPs_names ! i))) ([0..<k] @ [Suc k..<limit])
    \<and> Val (JString (NPs_names ! k)) \<notin> (\<lambda>row. cell_of row ''name'') ` set (rows db)
    \<and> (\<exists>pre post. printed w1 = printed w @ pre
           @ [str_nat (k + 1) @ ''/'' @ str_int (int limit) @ '' | '' @ NPs_names ! k
              @ [CHR 0x0A] @ stderr (extraction E w links k)] @ post)
    \<and> spawned w1 = spawned w @ map (\<lambda>i. scraper_argv np_prompt (links ! i)) [0..<limit]
    \<and> spawned w2 = spawned w1"
proof -
  let ?idx = "[0..<k] @ [Suc k..<limit]"
  have "filter (succeeded E w links) [0..<limit] = filter (\<lambda>i. i \<noteq> k) [0..<limit]"
    using assms(2) by (intro filter_cong) simp_all
  then have idx: "filter (succeeded E w links) [0..<nat (int limit)] = ?idx"
    using filter_all_but[OF assms(1)] by simp
  have dn: "distinct (take (nat (int limit)) NPs_names)" using assms(3) by simp
  have rel: "list_all2 (\<lambda>i row. cell_of row ''name'' = Val (JString (NPs_names ! i))) ?idx (rows db)"
    using pipeline_rows[OF assms(4,5) dn] unfolding idx
    by (rule list_all2_mono) simp
  have len: "length (rows db) = limit - 1"
    using list_all2_lengthD[OF rel] assms(1) by simp
  have names: "map (\<lambda>row. cell_of row ''name'') (rows db)
        = map (\<lambda>i. Val (JString (NPs_names ! i))) ?idx"
    using rel by (rule list_all2_map_eq)
  have ln: "limit \<le> length NPs_names" using get_np_info_Inr(2)[OF assms(4)] by simp
  have absent: "Val (JString (NPs_names ! k)) \<notin> (\<lambda>row. cell_of row ''name'') ` set (rows db)"
  proof
    assume "Val (JString (NPs_names ! k)) \<in> (\<lambda>row. cell_of row ''name'') ` set (rows db)"
    then have "Val (JString (NPs_names ! k)) \<in> set (map (\<lambda>row. cell_of row ''name'') (rows db))"
      by simp
    then have "Val (JString (NPs_names ! k)) \<in> set (map (\<lambda>i. Val (JString (NPs_names ! i))) ?idx)"
      unfolding names .
    then have "Val (JString (NPs_names ! k)) \<in> (\<lambda>i. Val (JString (NPs_names ! i))) ` set ?idx"
      by (simp only: set_map)
    then obtain i where i0: "i \<in> set ?idx"
      "Val (JString (NPs_names ! k)) = Val (JString (NPs_names ! i))" by (rule imageE)
    then have i: "i \<in> set ?idx" "NPs_names ! i = NPs_names ! k" by simp_all
    then have ik: "i < limit" "i \<noteq> k" using assms(1) by auto
    have "take limit NPs_names ! i = take limit NPs_names ! k"
      using i(2) ik(1) assms(1) by simp
    moreover have li: "i < length (take limit NPs_names)" and lk: "k < length (take limit NPs_names)"
      using ik(1) assms(1) ln by simp_all
    ultimately have "i = k" using nth_eq_iff_index_eq[OF assms(3) li lk] by blast
    with ik(2) show False by simp
  qed
  have fk: "\<not> succeeded E w links k" using assms(1,2) by simp
  have pr: "printed w1 = printed w
      @ concat (map (np_lines E w (int limit) links NPs_names verb) [0..<limit])"
    using get_np_info_Inr(4)[OF assms(4)] by simp
  have "np_lines E w (int limit) links NPs_names verb k
      = [str_nat (k + 1) @ ''/'' @ str_int (int limit) @ '' | '' @ NPs_names ! k
              @ [CHR 0x0A] @ stderr (extraction E w links k)]
        @ (if verb then [str_nat (k + 1) @ ''/'' @ str_int (int limit) @ '' | ''
                         @ ''done with '' @ NPs_names ! k] else [])"
    using fk by (simp add: np_lines_def)
  then have "printed w1 = printed w
      @ concat (map (np_lines E w (int limit) links NPs_names verb) [0..<k])
      @ [str_nat (k + 1) @ ''/'' @ str_int (int limit) @ '' | '' @ NPs_names ! k
              @ [CHR 0x0A] @ stderr (extraction E w links k)]
      @ ((if verb then [str_nat (k + 1) @ ''/'' @ str_int (int limit) @ '' | ''
                         @ ''done with '' @ NPs_names ! k] else [])
         @ concat (map (np_lines E w (int limit) links NPs_names verb) [Suc k..<limit]))"
    unfolding pr upt_split_at[OF assms(1)] by simp
  then have diag: "\<exists>pre post. printed w1 = printed w @ pre
           @ [str_nat (k + 1) @ ''/'' @ str_int (int limit) @ '' | '' @ NPs_names ! k
              @ [CHR 0x0A] @ stderr (extraction E w links k)] @ post"
    by blast
  have sp: "spawned w1 = spawned w @ map (\<lambda>i. scraper_argv np_prompt (links ! i)) [0..<limit]"
    using get_np_info_Inr(3)[OF assms(4)] by simp
  have "w2 = (if verb' then print ''Database created.'' w1 else w1)"
    using create_database_Inr(5)[OF assms(5) get_np_info_Inr(7)[OF assms(4)]] .
  then have sp2: "spawned w2 = spawned w1" by (simp add: print_def)
  from len names absent diag sp sp2 show ?thesis by (intro conjI)
qed

theorem failed_extraction_is_skipped_witness:
  "(1::nat) < 3
   \<and> succeeded sample_env fresh_world sample_links 0
   \<and> \<not> succeeded sample_env fresh_world sample_links 1
   \<and> succeeded sample_env fresh_world sample_links 2
   \<and> distinct (take 3 sample_names)
   \<and> (\<exists>NPs_dict w1 db NPs_dict' w2.
         get_np_info sample_env (int 3) sample_links sample_names False fresh_world = (Inr NPs_dict, w1)
       \<and> create_database NPs_dict False w1 = (Inr db, NPs_dict', w2)
       \<and> length (rows db) = 2
       \<and> map (\<lambda>row. cell_of row ''name'') (rows db)
           = [Val (JString ''Food Bank''), Val (JString ''Clinic'')]
       \<and> Val (JString ''Shelter'') \<notin> (\<lambda>row. cell_of row ''name'') ` set (rows db)
       \<and> (''2/3 | Shelter'' @ [CHR 0x0A] @ ''Traceback: timeout'') \<in> set (printed w1)
       \<and> length (spawned w2) = 3)"
proof -
  have s: "succeeded sample_env fresh_world sample_links 0"
    "\<not> succeeded sample_env fresh_world sample_links 1"
    "succeeded sample_env fresh_world sample_links 2"
    by (simp_all add: sample_defs succeeded_def extraction_def)
  have all: "\<forall>i<3. succeeded sample_env fresh_world sample_links i = (i \<noteq> 1)"
  proof (intro allI impI)
    fix i :: nat assume "i < 3"
    then have "i = 0 \<or> i = 1 \<or> i = 2" by arith
    then show "succeeded sample_env fresh_world sample_links i = (i \<noteq> 1)" using s by auto
  qed
  have dn: "distinct (take 3 sample_names)" by (simp add: sample_defs)
  have "\<exists>d. fst (get_np_info sample_env (int 3) sample_links sample_names False fresh_world) = Inr d"
    by (simp add: np_eval sample_defs)
  then obtain d w1 where
    g: "get_np_info sample_env (int 3) sample_links sample_names False fresh_world = (Inr d, w1)"
    by (cases "get_np_info sample_env (int 3) sample_links sample_names False fresh_world") auto
  have "\<exists>db d'. create_database (projr (fst (get_np_info sample_env (int 3) sample_links sample_names False fresh_world))) False w1
          = (Inr db, d', w1)"
    by (simp add: np_eval sample_defs db_eval)
  then obtain db d' where c: "create_database d False w1 = (Inr db, d', w1)" using g by auto
  have one: "(1::nat) < 3" by simp
  note t = failed_extraction_is_skipped[OF one all dn g c]
  have nm: "map (\<lambda>i. Val (JString (sample_names ! i))) ([0..<1] @ [Suc 1..<3])
            = [Val (JString ''Food Bank''), Val (JString ''Clinic'')]"
    by (simp add: sample_defs upt_rec)
  have line: "str_nat (1 + 1) @ ''/'' @ str_int (int 3) @ '' | '' @ sample_names ! 1
              @ [CHR 0x0A] @ stderr (extraction sample_env fresh_world sample_links 1)
            = ''2/3 | Shelter'' @ [CHR 0x0A] @ ''Traceback: timeout''"
    by (simp add: sample_defs extraction_def str_int_def str_nat.simps digit_char_def)
  have k: "sample_names ! 1 = ''Shelter''" by (simp add: sample_defs)
  from t have 1: "length (rows db) = 2" by simp
  from t nm have 2: "map (\<lambda>row. cell_of row ''name'') (rows db)
           = [Val (JString ''Food Bank''), Val (JString ''Clinic'')]" by simp
  from t k have 3: "Val (JString ''Shelter'') \<notin> (\<lambda>row. cell_of row ''name'') ` set (rows db)"
    by simp
  from t obtain pre post where "printed w1 = printed fresh_world @ pre
           @ [str_nat (1 + 1) @ ''/'' @ str_int (int 3) @ '' | '' @ sample_names ! 1
              @ [CHR 0x0A] @ stderr (extraction sample_env fresh_world sample_links 1)] @ post"
    by blast
  then have 4: "(''2/3 | Shelter'' @ [CHR 0x0A] @ ''Traceback: timeout'') \<in> set (printed w1)"
    unfolding line by simp
  from t have 5: "length (spawned w1) = 3" by (simp add: fresh_world_def)
  from one s dn g c 1 2 3 4 5 show ?thesis by (intro conjI exI)
qed

section \<open>The link of the cache, through the run\<close>

text \<open>
  C5. In a run of \<^verbatim>\<open>main\<close> that returns a table, from a cache with distinct names: the source
  link of each extraction is the cached link of the organization with \<^verbatim>\<open>/about\<close> appended, and
  the row of each organization whose extraction succeeded holds, beside its name, the cached
  link again. For every link \<open>L\<close>, cutting \<open>L\<close> with \<^verbatim>\<open>/about\<close> appended at its last slash gives
  \<open>L\<close> back.
\<close>

theorem about_suffix_round_trip:
  assumes "main E n lim path verb w = (Inr db, w')"
    and "files w (path @ ''/links.pkl'') = Some (Pickle dbd)"
    and "distinct (map fst dbd)"
    and "batch = slice_to n dbd"
    and "links = map (\<lambda>p. snd p @ ''/about'') batch"
  shows "spawned w' = spawned w @ map (\<lambda>l. scraper_argv np_prompt l) (take (nat lim) links)
    \<and> map (\<lambda>row. (cell_of row ''name'', cell_of row ''link'')) (rows db)
        = map (\<lambda>i. (Val (JString (fst (batch ! i))), Val (JString (snd (batch ! i)))))
            (filter (succeeded E w links) [0..<nat lim])
    \<and> (\<forall>L. hd (rsplit1 CHR ''/'' (L @ ''/about'')) = L)"
proof -
  let ?w1 = "w\<lparr>clock_reads := clock_reads w + 1\<rparr>"
  let ?names = "slice_to n (map fst dbd)"
  let ?idx = "filter (succeeded E w links) [0..<nat lim]"
  from main_Inr[OF assms(1)] obtain dbd0 links0 NPs_dict w2 NPs_dict' w3 where
    f: "files w (path @ ''/links.pkl'') = Some (Pickle dbd0)"
    and bl: "build_links dbd0 (slice_to n (map fst dbd0)) = Inr links0"
    and g0: "get_np_info E lim links0 (slice_to n (map fst dbd0)) verb ?w1 = (Inr NPs_dict, w2)"
    and c: "create_database NPs_dict False w2 = (Inr db, NPs_dict', w3)"
    and w': "w' = (if verb
                  then print ([CHR 0x0A] @ ''Time taken: ''
                         @ timedelta_str E (now E (clock_reads w)) (now E (clock_reads w3)))
                         (w3\<lparr>clock_reads := clock_reads w3 + 1\<rparr>)
                  else w3\<lparr>clock_reads := clock_reads w3 + 1\<rparr>)"
    by blast
  from f assms(2) have dbd0: "dbd0 = dbd" by simp
  have l0: "links0 = links"
    using bl build_links_distinct[OF assms(3), of n] unfolding dbd0 assms(4,5) by simp
  have g: "get_np_info E lim links ?names verb ?w1 = (Inr NPs_dict, w2)"
    using g0 unfolding dbd0 l0 .
  have names: "?names = map fst batch" unfolding assms(4) by (rule slice_to_map)
  have dn: "distinct (take (nat lim) ?names)"
    using distinct_slice_to[OF assms(3), of n] by simp
  have k: "nat lim \<le> length links" using get_np_info_Inr(1)[OF g] .
  then have kb: "nat lim \<le> length batch" unfolding assms(5) by simp
  have "w3 = w2" using create_database_Inr(5)[OF c get_np_info_Inr(7)[OF g]] by simp
  then have "spawned w' = spawned w2" unfolding w' by (simp add: print_def)
  also have "\<dots> = spawned ?w1 @ map (\<lambda>i. scraper_argv np_prompt (links ! i)) [0..<nat lim]"
    using get_np_info_Inr(3)[OF g] .
  also have "\<dots> = spawned w @ map (\<lambda>l. scraper_argv np_prompt l) (take (nat lim) links)"
    using map_nth_upt[OF k, of "\<lambda>l. scraper_argv np_prompt l"] by simp
  finally have 1: "spawned w' = spawned w @ map (\<lambda>l. scraper_argv np_prompt l) (take (nat lim) links)" .
  have ab: "\<And>L. hd (rsplit1 CHR ''/'' (L @ ''/about'')) = L"
  proof -
    fix L :: string
    have "CHR ''/'' \<notin> set ''about''" by simp
    from rsplit1_append[OF this, of L] show "hd (rsplit1 CHR ''/'' (L @ ''/about'')) = L" by simp
  qed
  have rel: "list_all2 (\<lambda>i row. cell_of row ''name'' = Val (JString (?names ! i))
            \<and> cell_of row ''link'' = Val (JString (hd (rsplit1 CHR ''/'' (links ! i)))))
          ?idx (rows db)"
    using pipeline_rows[OF g c dn] unfolding succeeded_clock .
  have "list_all2 (\<lambda>i row. (cell_of row ''name'', cell_of row ''link'')
            = (Val (JString (fst (batch ! i))), Val (JString (snd (batch ! i)))))
          ?idx (rows db)"
    using rel
  proof (rule list.rel_mono_strong)
    fix i row
    assume i: "i \<in> set ?idx"
      and r: "cell_of row ''name'' = Val (JString (?names ! i))
            \<and> cell_of row ''link'' = Val (JString (hd (rsplit1 CHR ''/'' (links ! i))))"
    from i kb have ib: "i < length batch" by simp
    then have n: "?names ! i = fst (batch ! i)" unfolding names by simp
    have "links ! i = snd (batch ! i) @ ''/about''" unfolding assms(5) using ib by simp
    then have l: "hd (rsplit1 CHR ''/'' (links ! i)) = snd (batch ! i)" using ab by simp
    from r n l show "(cell_of row ''name'', cell_of row ''link'')
            = (Val (JString (fst (batch ! i))), Val (JString (snd (batch ! i))))" by simp
  qed
  then have 2: "map (\<lambda>row. (cell_of row ''name'', cell_of row ''link'')) (rows db)
        = map (\<lambda>i. (Val (JString (fst (batch ! i))), Val (JString (snd (batch ! i))))) ?idx"
    by (rule list_all2_map_eq)
  from 1 2 ab show ?thesis by (intro conjI allI)
qed

theorem about_suffix_round_trip_witness:
  "files cached_world (''data'' @ ''/links.pkl'') = Some (Pickle sample_cache)
   \<and> distinct (map fst sample_cache)
   \<and> sample_cache = slice_to 3 sample_cache
   \<and> sample_links = map (\<lambda>p. snd p @ ''/about'') sample_cache
   \<and> (\<exists>db w'. main sample_env 3 3 ''data'' False cached_world = (Inr db, w')
        \<and> spawned w' = map (\<lambda>l. scraper_argv np_prompt l)
              [''http://foodbank.example/team/about'', ''http://shelter.example/about'',
               ''http://clinic.example/home/about'']
        \<and> map (\<lambda>row. (cell_of row ''name'', cell_of row ''link'')) (rows db)
            = [(Val (JString ''Food Bank''), Val (JString ''http://foodbank.example/team'')),
               (Val (JString ''Clinic''), Val (JString ''http://clinic.example/home''))])
   \<and> hd (rsplit1 CHR ''/'' (''http://example.org/team'' @ ''/about'')) = ''http://example.org/team''"
proof -
  have f: "files cached_world (''data'' @ ''/links.pkl'') = Some (Pickle sample_cache)"
    by (simp add: cached_world_def fresh_world_def)
  have d: "distinct (map fst sample_cache)" by (simp add: sample_cache_def)
  have b: "sample_cache = slice_to 3 sample_cache" by (simp add: slice_to_def sample_cache_def)
  have l: "sample_links = map (\<lambda>p. snd p @ ''/about'') sample_cache"
    by (simp add: sample_links_def sample_cache_def)
  have "\<exists>db. fst (main sample_env 3 3 ''data'' False cached_world) = Inr db"
    by (simp add: main_eval np_eval db_eval sample_defs sample_cache_def cached_world_def
        split: prod.splits)
  then obtain db w' where m: "main sample_env 3 3 ''data'' False cached_world = (Inr db, w')"
    by (cases "main sample_env 3 3 ''data'' False cached_world") auto
  note t = about_suffix_round_trip[OF m f d b l]
  have idx: "filter (succeeded sample_env cached_world sample_links) [0..<nat 3] = [0, 2]"
    by (simp add: upt_rec sample_defs succeeded_def extraction_def cached_world_def)
  have sp: "spawned cached_world = []" by (simp add: cached_world_def fresh_world_def)
  have tk: "take (nat 3) sample_links
      = [''http://foodbank.example/team/about'', ''http://shelter.example/about'',
         ''http://clinic.example/home/about'']"
    by (simp add: sample_links_def)
  from t sp tk have 1: "spawned w' = map (\<lambda>l. scraper_argv np_prompt l)
              [''http://foodbank.example/team/about'', ''http://shelter.example/about'',
               ''http://clinic.example/home/about'']" by simp
  from t idx have 2: "map (\<lambda>row. (cell_of row ''name'', cell_of row ''link'')) (rows db)
            = [(Val (JString ''Food Bank''), Val (JString ''http://foodbank.example/team'')),
               (Val (JString ''Clinic''), Val (JString ''http://clinic.example/home''))]"
    by (simp add: sample_cache_def)
  from t have 3: "hd (rsplit1 CHR ''/'' (''http://example.org/team'' @ ''/about'')) = ''http://example.org/team''"
    by blast
  from f d b l m 1 2 3 show ?thesis by (intro conjI exI)
qed

section \<open>The output file\<close>

text \<open>
  C6, as the code has it. The header of the table does not stop at the seven columns:
  \<^verbatim>\<open>pd.concat\<close> takes the union of the columns, so every key of an extraction result that is
  none of the seven becomes a column behind them. For distinct names, a table that
  \<^verbatim>\<open>create_database\<close> made of what \<^verbatim>\<open>get_np_info\<close> returned, and a clock that shows a year of
  four digits: \<^verbatim>\<open>save_db\<close> leaves the table in the file \<^verbatim>\<open>associations_YYMMDD-HHMM.csv\<close> under
  the path, named after the time it read; the header is the seven columns \<^verbatim>\<open>name\<close>,
  \<^verbatim>\<open>location\<close>, \<^verbatim>\<open>description\<close>, \<^verbatim>\<open>size\<close>, \<^verbatim>\<open>contacts\<close>, \<^verbatim>\<open>social_media\<close>, \<^verbatim>\<open>link\<close> in this order,
  followed by exactly the other keys of the successful extractions; and there is one row
  for each organization whose extraction succeeded.
\<close>

theorem output_file_format:
  assumes "get_np_info E lim links NPs_names verb w = (Inr NPs_dict, w1)"
    and "distinct (take (nat lim) NPs_names)"
    and "create_database NPs_dict verb' w1 = (Inr db, NPs_dict', w2)"
    and "valid_datetime (now E (clock_reads ws))"
  shows "files (save_db E db path verb'' ws)
           (path @ ''associations_'' @ file_stamp (now E (clock_reads ws)) @ ''.csv'') = Some (Csv db)
    \<and> (\<exists>extra. columns db = db_columns @ extra
           \<and> set extra = extracted_keys E w links (nat lim) - set db_columns)
    \<and> length (rows db) = length (filter (succeeded E w links) [0..<nat lim])"
proof -
  let ?idx = "filter (succeeded E w links) [0..<nat lim]"
  note dd = get_np_info_Inr(7)[OF assms(1)]
  note ents = get_np_info_entries[OF assms(1,2)]
  note fl = create_database_Inr(2)[OF assms(3) dd]
  note ro = create_database_Inr(3)[OF assms(3) dd]
  have la: "length ?idx = length NPs_dict" using ents by (rule list_all2_lengthD)
  have lb: "length NPs_dict = length NPs_dict'" using fl by (rule list_all2_lengthD)
  have lc: "length NPs_dict' = length (rows db)" using ro by (rule list_all2_lengthD)
  have 3: "length (rows db) = length ?idx" using la lb lc by simp
  have 1: "files (save_db E db path verb'' ws)
           (path @ ''associations_'' @ file_stamp (now E (clock_reads ws)) @ ''.csv'') = Some (Csv db)"
    using save_db_file[of E db path verb'' ws] unfolding strftime_stamp[OF assms(4)] .
  have keys: "\<And>j. j < length NPs_dict \<Longrightarrow>
      \<exists>kv. json_loads E (stdout (extraction E w links (?idx ! j))) = Inr (JObject kv)
         \<and> set (record_keys (snd (NPs_dict' ! j))) = insert ''link'' (insert ''name'' (fst ` set kv))"
  proof -
    fix j assume j: "j < length NPs_dict"
    have a: "np_entry E w links NPs_names (?idx ! j) (NPs_dict ! j)"
      using list_all2_nthD[OF ents, of j] j la by simp
    have b: "flattened (snd (NPs_dict ! j)) (snd (NPs_dict' ! j))"
      using list_all2_nthD[OF fl j] .
    from entry_keys[OF a b]
    show "\<exists>kv. json_loads E (stdout (extraction E w links (?idx ! j))) = Inr (JObject kv)
         \<and> set (record_keys (snd (NPs_dict' ! j))) = insert ''link'' (insert ''name'' (fst ` set kv))" .
  qed
  have nl: "''name'' \<in> set db_columns" "''link'' \<in> set db_columns" by (simp_all add: db_columns_def)
  have eq: "(\<Union>p' \<in> set NPs_dict'. set (record_keys (snd p'))) - set db_columns
            = extracted_keys E w links (nat lim) - set db_columns"
  proof (intro equalityI subsetI)
    fix c assume "c \<in> (\<Union>p' \<in> set NPs_dict'. set (record_keys (snd p'))) - set db_columns"
    then obtain p' where p': "p' \<in> set NPs_dict'" "c \<in> set (record_keys (snd p'))"
      and nc: "c \<notin> set db_columns" by blast
    from p'(1) obtain j where j: "j < length NPs_dict'" "NPs_dict' ! j = p'"
      by (metis in_set_conv_nth)
    then have jl: "j < length NPs_dict" using lb by simp
    from keys[OF jl] obtain kv where
      kv: "json_loads E (stdout (extraction E w links (?idx ! j))) = Inr (JObject kv)"
      and ks: "set (record_keys (snd (NPs_dict' ! j))) = insert ''link'' (insert ''name'' (fst ` set kv))"
      by blast
    have "c \<noteq> ''name''" "c \<noteq> ''link''" using nc nl by auto
    with p'(2) j(2) ks have ck: "c \<in> fst ` set kv" by simp
    have "j < length ?idx" using jl la by simp
    then have "?idx ! j \<in> set ?idx" by (rule nth_mem)
    then have "?idx ! j < nat lim" "succeeded E w links (?idx ! j)" by simp_all
    with kv ck have "c \<in> extracted_keys E w links (nat lim)"
      unfolding extracted_keys_def by blast
    with nc show "c \<in> extracted_keys E w links (nat lim) - set db_columns" by simp
  next
    fix c assume "c \<in> extracted_keys E w links (nat lim) - set db_columns"
    then obtain i kv where i: "i < nat lim" "succeeded E w links i"
      and kv: "json_loads E (stdout (extraction E w links i)) = Inr (JObject kv)"
      and ck: "c \<in> fst ` set kv" and nc: "c \<notin> set db_columns"
      unfolding extracted_keys_def by blast
    from i have "i \<in> set ?idx" by simp
    then obtain j where j: "j < length ?idx" "?idx ! j = i" by (metis in_set_conv_nth)
    then have jl: "j < length NPs_dict" using la by simp
    from keys[OF jl] obtain kv' where
      kv': "json_loads E (stdout (extraction E w links (?idx ! j))) = Inr (JObject kv')"
      and ks: "set (record_keys (snd (NPs_dict' ! j))) = insert ''link'' (insert ''name'' (fst ` set kv'))"
      by blast
    from kv kv' j(2) have "kv' = kv" by simp
    with ks ck have "c \<in> set (record_keys (snd (NPs_dict' ! j)))" by simp
    moreover have "NPs_dict' ! j \<in> set NPs_dict'" using jl lb by simp
    ultimately have "c \<in> (\<Union>p' \<in> set NPs_dict'. set (record_keys (snd p')))" by blast
    with nc show "c \<in> (\<Union>p' \<in> set NPs_dict'. set (record_keys (snd p'))) - set db_columns"
      by simp
  qed
  from create_database_Inr(4)[OF assms(3) dd] obtain extra where
    "columns db = db_columns @ extra"
    "set extra = (\<Union>p' \<in> set NPs_dict'. set (record_keys (snd p'))) - set db_columns"
    by blast
  then have 2: "\<exists>extra. columns db = db_columns @ extra
           \<and> set extra = extracted_keys E w links (nat lim) - set db_columns"
    unfolding eq by blast
  from 1 2 3 show ?thesis by (intro conjI)
qed

text \<open>
  The claim as it was stated, with a header of exactly the seven columns, fails on a run of
  the script whose extractor answers with a \<^verbatim>\<open>type\<close> field, as the prompt asks it to.
\<close>

theorem output_header_counterexample:
  "\<exists>db w'. script sample_env sample_args two_caches_world = (Inr db, w')
     \<and> files w' ''out/associations_240309-0705.csv'' = Some (Csv db)
     \<and> columns db = [''name'', ''location'', ''description'', ''size'', ''contacts'',
                      ''social_media'', ''link'', ''type'']
     \<and> columns db \<noteq> db_columns"
proof -
  have "\<exists>db. fst (script sample_env sample_args two_caches_world) = Inr db
     \<and> columns db = [''name'', ''location'', ''description'', ''size'', ''contacts'',
                      ''social_media'', ''link'', ''type'']"
    by (simp add: script_eval main_eval np_eval db_eval sample_defs sample_args_def
        two_caches_world_def split: prod.splits)
  then obtain db w' where s: "script sample_env sample_args two_caches_world = (Inr db, w')"
    and b: "columns db = [''name'', ''location'', ''description'', ''size'', ''contacts'',
                      ''social_media'', ''link'', ''type'']"
    by (cases "script sample_env sample_args two_caches_world") auto
  have v: "valid_datetime (now sample_env (clock_reads two_caches_world + 2))"
    by (simp add: valid_datetime_def sample_defs)
  have st: "file_stamp (now sample_env (clock_reads two_caches_world + 2)) = ''240309-0705''"
    by (simp add: file_stamp_def two_digits_def digit_char_def sample_defs)
  have p: "arg_path sample_args = ''out/''" by (simp add: sample_args_def)
  from script_file[OF s] have c: "files w' ''out/associations_240309-0705.csv'' = Some (Csv db)"
    unfolding strftime_stamp[OF v] st p by simp
  from b have d: "columns db \<noteq> db_columns" by (simp add: db_columns_def)
  from s c b d show ?thesis by (intro conjI exI)
qed

theorem output_file_format_witness:
  "distinct (take (nat 3) sample_names)
   \<and> valid_datetime (now sample_env (clock_reads fresh_world))
   \<and> (\<exists>NPs_dict w1 db NPs_dict' w2.
         get_np_info sample_env 3 sample_links sample_names False fresh_world = (Inr NPs_dict, w1)
       \<and> create_database NPs_dict False w1 = (Inr db, NPs_dict', w2)
       \<and> files (save_db sample_env db ''out/'' False fresh_world)
             ''out/associations_240309-0705.csv'' = Some (Csv db)
       \<and> columns db = db_columns @ [''type'']
       \<and> {''type''} = extracted_keys sample_env fresh_world sample_links (nat 3) - set db_columns
       \<and> length (rows db) = 2)"
proof -
  have dn: "distinct (take (nat 3) sample_names)" by (simp add: sample_defs)
  have v: "valid_datetime (now sample_env (clock_reads fresh_world))"
    by (simp add: valid_datetime_def sample_defs)
  have "\<exists>d. fst (get_np_info sample_env 3 sample_links sample_names False fresh_world) = Inr d"
    by (simp add: np_eval sample_defs)
  then obtain d w1 where
    g: "get_np_info sample_env 3 sample_links sample_names False fresh_world = (Inr d, w1)"
    by (cases "get_np_info sample_env 3 sample_links sample_names False fresh_world") auto
  have "\<exists>db d'. create_database (projr (fst (get_np_info sample_env 3 sample_links sample_names False fresh_world))) False w1
          = (Inr db, d', w1) \<and> columns db = db_columns @ [''type'']"
    by (simp add: np_eval sample_defs db_eval)
  then obtain db d' where c: "create_database d False w1 = (Inr db, d', w1)"
    and cols: "columns db = db_columns @ [''type'']" using g by auto
  note t = output_file_format[OF g dn c v, of "''out/''" False]
  have st: "file_stamp (now sample_env (clock_reads fresh_world)) = ''240309-0705''"
    by (simp add: file_stamp_def two_digits_def digit_char_def sample_defs)
  have idx: "filter (succeeded sample_env fresh_world sample_links) [0..<nat 3] = [0, 2]"
    by (simp add: upt_rec sample_defs succeeded_def extraction_def)
  from t st have 1: "files (save_db sample_env db ''out/'' False fresh_world)
             ''out/associations_240309-0705.csv'' = Some (Csv db)" by simp
  from t obtain extra where e: "columns db = db_columns @ extra"
    "set extra = extracted_keys sample_env fresh_world sample_links (nat 3) - set db_columns"
    by blast
  from e(1) cols have "extra = [''type'']" by simp
  with e(2) have 2: "{''type''} = extracted_keys sample_env fresh_world sample_links (nat 3) - set db_columns"
    by simp
  from t idx have 3: "length (rows db) = 2" by simp
  from dn v g c 1 cols 2 3 show ?thesis by (intro conjI exI)
qed

section \<open>The contacts column\<close>

text \<open>
  C7. For every record whose \<^verbatim>\<open>contacts\<close> field is a list, in a call of \<^verbatim>\<open>create_database\<close>
  that returns, the cell of the \<^verbatim>\<open>contacts\<close> column in the record's row is one string: the
  text of the list without its first and its last character, the brackets. That string is
  the texts of the list's values joined by a comma and a space, and so holds the text of
  each of them.
\<close>

theorem contacts_list_is_flattened:
  assumes "create_database NPs_dict verb w = (Inr db, NPs_dict', w')"
    and "distinct (map fst NPs_dict)"
    and "i < length NPs_dict"
    and "getitem_key (snd (NPs_dict ! i)) ''contacts'' = Inr (JList xs)"
  shows "cell_of (rows db ! i) ''contacts'' = Val (JString (strip_ends (py_str (JList xs))))
    \<and> strip_ends (py_str (JList xs)) = join '', '' (map py_repr xs)
    \<and> (\<forall>x \<in> set xs. str_contains (py_repr x) (strip_ends (py_str (JList xs))))"
proof -
  note fl = create_database_Inr(2)[OF assms(1,2)]
  note ro = create_database_Inr(3)[OF assms(1,2)]
  have len: "length NPs_dict = length NPs_dict'" using fl by (rule list_all2_lengthD)
  have f: "flattened (snd (NPs_dict ! i)) (snd (NPs_dict' ! i))"
    using list_all2_nthD[OF fl assms(3)] .
  have r: "row_of (snd (NPs_dict' ! i)) (rows db ! i)"
    using list_all2_nthD[OF ro, of i] assms(3) len by simp
  from f obtain kv c where o: "snd (NPs_dict ! i) = JObject kv"
    and c: "map_of kv ''contacts'' = Some c"
    and o': "snd (NPs_dict' ! i) = JObject (AList.update ''contacts'' (JString (strip_ends (py_str c))) kv)"
    unfolding flattened_def by blast
  have "getitem_key (snd (NPs_dict ! i)) ''contacts'' = Inr c"
    unfolding o using c by (simp add: getitem_key_def)
  with assms(4) have cx: "c = JList xs" by simp
  from r o' have rc: "row_cells (AList.update ''contacts'' (JString (strip_ends (py_str c))) kv)
                      = Inr (rows db ! i)"
    unfolding row_of_def by simp
  have m: "map_of (AList.update ''contacts'' (JString (strip_ends (py_str c))) kv) ''contacts''
           = Some (JString (strip_ends (py_str c)))"
    by (simp add: update_conv')
  from row_cells_lookup[OF rc m]
  have 1: "cell_of (rows db ! i) ''contacts'' = Val (JString (strip_ends (py_str (JList xs))))"
    unfolding cx by (auto simp: broadcast_def cell_of_def)
  have 2: "strip_ends (py_str (JList xs)) = join '', '' (map py_repr xs)"
    by (rule strip_ends_list)
  have 3: "\<forall>x \<in> set xs. str_contains (py_repr x) (strip_ends (py_str (JList xs)))"
  proof
    fix x assume "x \<in> set xs"
    then have "py_repr x \<in> set (map py_repr xs)" by simp
    then have "\<exists>pre post. join '', '' (map py_repr xs) = pre @ py_repr x @ post"
      by (rule join_holds_part)
    then show "str_contains (py_repr x) (strip_ends (py_str (JList xs)))"
      unfolding 2 str_contains_iff .
  qed
  from 1 2 3 show ?thesis by (intro conjI)
qed

theorem contacts_list_is_flattened_witness:
  "distinct (map fst sample_dict) \<and> 0 < length sample_dict
   \<and> getitem_key (snd (sample_dict ! 0)) ''contacts''
       = Inr (JList [JString ''a@x.org'', JString ''555-1234''])
   \<and> JString ''a@x.org'' \<in> set [JString ''a@x.org'', JString ''555-1234'']
   \<and> (\<exists>db NPs_dict' w'.
         create_database sample_dict False fresh_world = (Inr db, NPs_dict', w')
       \<and> cell_of (rows db ! 0) ''contacts'' = Val (JString sample_contacts)
       \<and> str_contains (py_repr (JString ''a@x.org'')) sample_contacts)"
proof -
  have d: "distinct (map fst sample_dict)" "0 < length sample_dict"
    by (simp_all add: sample_dict_def)
  have "\<exists>db d'. create_database sample_dict False fresh_world = (Inr db, d', fresh_world)"
    by (simp add: db_eval sample_dict_def)
  then obtain db d' where c: "create_database sample_dict False fresh_world = (Inr db, d', fresh_world)"
    by blast
  have g: "getitem_key (snd (sample_dict ! 0)) ''contacts''
           = Inr (JList [JString ''a@x.org'', JString ''555-1234''])"
    by (simp add: sample_dict_def getitem_key_def)
  have s: "strip_ends (py_str (JList [JString ''a@x.org'', JString ''555-1234''])) = sample_contacts"
    by (simp add: strip_ends_def py_str_def repr_str_def repr_quote_def repr_char_def
        printable_def sample_contacts_def Let_def)
  have mem: "JString ''a@x.org'' \<in> set [JString ''a@x.org'', JString ''555-1234'']" by simp
  note t = contacts_list_is_flattened[OF c d g]
  from t s have 1: "cell_of (rows db ! 0) ''contacts'' = Val (JString sample_contacts)" by simp
  from t mem have "str_contains (py_repr (JString ''a@x.org''))
      (strip_ends (py_str (JList [JString ''a@x.org'', JString ''555-1234''])))" by blast
  then have 2: "str_contains (py_repr (JString ''a@x.org'')) sample_contacts" unfolding s .
  from d g mem c 1 2 show ?thesis by (intro conjI exI)
qed

section \<open>Failures of the discovery step\<close>

text \<open>
  C8. \<^verbatim>\<open>find_websites\<close> has one failure that is no exception: when the extractor's stdout is
  empty, the function returns the stderr text as its result. It returns an error text in
  no other case. When the stdout is not empty and \<^verbatim>\<open>json.loads\<close> raises, the function raises
  that exception; and when, for some name of the list, the search of the chosen backend
  raises, after the names before it went through, the function raises that exception, in
  the world the search left.
\<close>

theorem find_websites_failures:
  assumes "result = subprocess_run E (length (spawned w))
                      (scraper_argv (discovery_prompt source_link) source_link)"
    and "w0 = w\<lparr>spawned := spawned w @ [scraper_argv (discovery_prompt source_link) source_link]\<rparr>"
    and "w1 = (if verb then print ''Finding the names of the associations done.'' w0 else w0)"
  shows "(stdout result = [] \<longrightarrow>
            find_websites E source_link search_engine verb w = (Inr (ErrorText (stderr result)), w1))
    \<and> (stdout result \<noteq> [] \<longrightarrow>
          (\<forall>t. fst (find_websites E source_link search_engine verb w) \<noteq> Inr (ErrorText t)))
    \<and> (\<forall>e. stdout result \<noteq> [] \<and> json_loads E (stdout result) = Inl e \<longrightarrow>
            find_websites E source_link search_engine verb w = (Inl e, w1))
    \<and> (\<forall>e resdict NPs_names len_names n NPs_links w2 np w3.
          stdout result \<noteq> [] \<and> json_loads E (stdout result) = Inr resdict
          \<and> first_value resdict = Inr NPs_names \<and> py_len NPs_names = Inr len_names
          \<and> n < len_names
          \<and> for_each (fw_step E search_engine NPs_names len_names) [0..<n] [] w1
              = (Inr NPs_links, w2)
          \<and> getitem_int NPs_names n = Inr np
          \<and> resolve E search_engine np
                (print (str_nat (n + 1) @ ''/'' @ str_nat len_names @ '' | '' @ py_str np) w2)
              = (Inl e, w3)
          \<longrightarrow> find_websites E source_link search_engine verb w = (Inl e, w3))"
proof (intro conjI allI impI)
  note fw = find_websites_unfold[OF assms, of search_engine]
  {
    assume "stdout result = []"
    then show "find_websites E source_link search_engine verb w = (Inr (ErrorText (stderr result)), w1)"
      unfolding fw by simp
  next
    fix t assume ne: "stdout result \<noteq> []"
    show "fst (find_websites E source_link search_engine verb w) \<noteq> Inr (ErrorText t)"
      unfolding fw using ne by (simp split: sum.splits prod.splits)
  next
    fix e assume "stdout result \<noteq> [] \<and> json_loads E (stdout result) = Inl e"
    then show "find_websites E source_link search_engine verb w = (Inl e, w1)"
      unfolding fw by simp
  next
    fix e resdict NPs_names len_names n NPs_links w2 np w3
    assume h: "stdout result \<noteq> [] \<and> json_loads E (stdout result) = Inr resdict
          \<and> first_value resdict = Inr NPs_names \<and> py_len NPs_names = Inr len_names
          \<and> n < len_names
          \<and> for_each (fw_step E search_engine NPs_names len_names) [0..<n] [] w1
              = (Inr NPs_links, w2)
          \<and> getitem_int NPs_names n = Inr np
          \<and> resolve E search_engine np
                (print (str_nat (n + 1) @ ''/'' @ str_nat len_names @ '' | '' @ py_str np) w2)
              = (Inl e, w3)"
    then have n: "n < len_names" by simp
    from h have st: "fw_step E search_engine NPs_names len_names n NPs_links w2 = (Inl e, w3)"
      by (simp add: fw_step_def Let_def)
    from h have pre: "for_each (fw_step E search_engine NPs_names len_names) [0..<n] [] w1
              = (Inr NPs_links, w2)" by simp
    have "for_each (fw_step E search_engine NPs_names len_names) ([0..<n] @ n # [Suc n..<len_names]) [] w1
        = (Inl e, w3)"
      using pre st by (rule for_each_raises)
    then have loop: "for_each (fw_step E search_engine NPs_names len_names) [0..<len_names] [] w1
        = (Inl e, w3)"
      using upt_split_at[OF n] by simp
    from h have a: "stdout result \<noteq> []" "json_loads E (stdout result) = Inr resdict"
      "first_value resdict = Inr NPs_names" "py_len NPs_names = Inr len_names" by simp_all
    show "find_websites E source_link search_engine verb w = (Inl e, w3)"
      unfolding fw using a loop by simp
  }
qed

theorem find_websites_failures_witness:
  "find_websites silent_extractor_env ''http://list.example'' ''ddg'' False fresh_world
     = (Inr (ErrorText ''Traceback: no page''),
        fresh_world\<lparr>spawned := [scraper_argv (discovery_prompt ''http://list.example'')
                                   ''http://list.example'']\<rparr>)
   \<and> fst (find_websites malformed_env ''http://list.example'' ''ddg'' False fresh_world)
       = Inl JSONDecodeError
   \<and> fst (find_websites malformed_env ''http://list.example'' ''ddg'' False fresh_world)
       \<noteq> Inr (ErrorText [])
   \<and> fst (find_websites search_error_env ''http://list.example'' ''ddg'' False fresh_world)
       = Inl (DuckDuckGoSearchException ''connection timed out'')"
proof -
  let ?src = "''http://list.example''"
  let ?w0 = "fresh_world\<lparr>spawned := spawned fresh_world @ [scraper_argv (discovery_prompt ?src) ?src]\<rparr>"
  have w1: "?w0 = (if False then print ''Finding the names of the associations done.'' ?w0 else ?w0)"
    by simp
  note a = find_websites_failures[OF refl refl w1, of silent_extractor_env "''ddg''"]
  note b = find_websites_failures[OF refl refl w1, of malformed_env "''ddg''"]
  note c = find_websites_failures[OF refl refl w1, of search_error_env "''ddg''"]
  have sp: "spawned fresh_world = []" by (simp add: fresh_world_def)
  have 1: "find_websites silent_extractor_env ?src ''ddg'' False fresh_world
     = (Inr (ErrorText ''Traceback: no page''),
        fresh_world\<lparr>spawned := [scraper_argv (discovery_prompt ?src) ?src]\<rparr>)"
    using a[THEN conjunct1] by (simp add: silent_extractor_env_def quiet_env_def sp)
  have ne: "stdout (subprocess_run malformed_env (length (spawned fresh_world))
                      (scraper_argv (discovery_prompt ?src) ?src)) \<noteq> []"
    and je: "json_loads malformed_env (stdout (subprocess_run malformed_env (length (spawned fresh_world))
                      (scraper_argv (discovery_prompt ?src) ?src))) = Inl JSONDecodeError"
    by (simp_all add: malformed_env_def quiet_env_def)
  have 2: "fst (find_websites malformed_env ?src ''ddg'' False fresh_world) = Inl JSONDecodeError"
    using b[THEN conjunct2, THEN conjunct2, THEN conjunct1] ne je by simp
  have 3: "fst (find_websites malformed_env ?src ''ddg'' False fresh_world) \<noteq> Inr (ErrorText [])"
    using b[THEN conjunct2, THEN conjunct1] ne by blast
  define names where "names = JList [JString ''Food Bank'', JString ''Shelter'']"
  define w2 where "w2 = ?w0\<lparr>printed := [''1/2 | Food Bank''], searched := [''Food Bank BC'']\<rparr>"
  have h1: "stdout (subprocess_run search_error_env (length (spawned fresh_world))
                      (scraper_argv (discovery_prompt ?src) ?src)) \<noteq> []"
    and h2: "json_loads search_error_env (stdout (subprocess_run search_error_env (length (spawned fresh_world))
                      (scraper_argv (discovery_prompt ?src) ?src)))
             = Inr (JObject [(''associations'', names)])"
    and h3: "first_value (JObject [(''associations'', names)]) = Inr names"
    and h4: "py_len names = Inr 2"
    and h5: "getitem_int names 1 = Inr (JString ''Shelter'')"
    by (simp_all add: search_error_env_def quiet_env_def names_def first_value_def getitem_key_def
        py_len_def getitem_int_def getitem_list_def)
  have h6: "for_each (fw_step search_error_env ''ddg'' names 2) [0..<1] [] ?w0
            = (Inr [(JString ''Food Bank'', JString ''http://foodbank.example'')], w2)"
    by (simp add: fw_eval search_error_env_def quiet_env_def fresh_world_def names_def w2_def
        str_nat.simps digit_char_def)
  have h7: "\<exists>w3. resolve search_error_env ''ddg'' (JString ''Shelter'')
                (print (str_nat (1 + 1) @ ''/'' @ str_nat 2 @ '' | '' @ py_str (JString ''Shelter'')) w2)
              = (Inl (DuckDuckGoSearchException ''connection timed out''), w3)"
    by (simp add: fw_eval search_error_env_def quiet_env_def fresh_world_def w2_def)
  then obtain w3 where h7': "resolve search_error_env ''ddg'' (JString ''Shelter'')
                (print (str_nat (1 + 1) @ ''/'' @ str_nat 2 @ '' | '' @ py_str (JString ''Shelter'')) w2)
              = (Inl (DuckDuckGoSearchException ''connection timed out''), w3)" by blast
  have one: "(1::nat) < 2" by simp
  from c[THEN conjunct2, THEN conjunct2, THEN conjunct2, rule_format,
         of "JObject [(''associations'', names)]" names 2 1
            "[(JString ''Food Bank'', JString ''http://foodbank.example'')]" w2
            "JString ''Shelter''" "DuckDuckGoSearchException ''connection timed out''" w3]
       h1 h2 h3 h4 one h5 h6 h7'
  have 4: "fst (find_websites search_error_env ?src ''ddg'' False fresh_world)
       = Inl (DuckDuckGoSearchException ''connection timed out'')" by simp
  from 1 2 3 4 show ?thesis by (intro conjI)
qed

section \<open>The source flag and the cache\<close>

text \<open>
  C9. The claim is that the value of the source flag does not reach the batch path. The
  block under \<^verbatim>\<open>__main__\<close> hands \<^verbatim>\<open>args.source_link\<close> to \<^verbatim>\<open>main\<close> in the place of its parameter
  \<^verbatim>\<open>path\<close>, from which \<^verbatim>\<open>main\<close> builds the name of the cache file. Three runs on one world, with
  one extractor and one command line but for the source flag: the first two load different
  caches and return different tables, the third finds no cache and raises.
\<close>

theorem source_flag_selects_the_cache:
  "(\<exists>db_A db_B.
      fst (script sample_env (sample_args\<lparr>arg_source_link := ''A''\<rparr>) two_caches_world) = Inr db_A
    \<and> fst (script sample_env (sample_args\<lparr>arg_source_link := ''B''\<rparr>) two_caches_world) = Inr db_B
    \<and> map (\<lambda>row. cell_of row ''name'') (rows db_A) = [Val (JString ''Food Bank'')]
    \<and> map (\<lambda>row. cell_of row ''name'') (rows db_B) = [Val (JString ''Clinic'')])
   \<and> fst (script sample_env (sample_args\<lparr>arg_source_link := ''C''\<rparr>) two_caches_world)
       = Inl FileNotFoundError"
  by (simp add: script_eval main_eval np_eval db_eval sample_defs sample_args_def
      two_caches_world_def cell_of_def split: prod.splits)

section \<open>The mapping after the assembly\<close>

text \<open>
  C10. \<^verbatim>\<open>create_database\<close> changes the mapping it is given. After a call that returns, the
  mapping has the keys it had, in their order; in every entry the \<^verbatim>\<open>contacts\<close> field, whatever
  it was, is the flattened text of what it was (a string, so no longer the list); the
  record has the fields it had, and every field other than \<^verbatim>\<open>contacts\<close> reads as before.
  Records are values here: two keys do not share one record object, as is the case for
  what \<^verbatim>\<open>get_np_info\<close> builds.
\<close>

theorem create_database_mutates_contacts:
  assumes "create_database NPs_dict verb w = (Inr db, NPs_dict', w')"
    and "distinct (map fst NPs_dict)"
    and "i < length NPs_dict"
  shows "map fst NPs_dict' = map fst NPs_dict
    \<and> (\<exists>c. getitem_key (snd (NPs_dict ! i)) ''contacts'' = Inr c
          \<and> getitem_key (snd (NPs_dict' ! i)) ''contacts'' = Inr (JString (strip_ends (py_str c))))
    \<and> record_keys (snd (NPs_dict' ! i)) = record_keys (snd (NPs_dict ! i))
    \<and> (\<forall>field. field \<noteq> ''contacts'' \<longrightarrow>
          getitem_key (snd (NPs_dict' ! i)) field = getitem_key (snd (NPs_dict ! i)) field)"
proof -
  note keys = create_database_Inr(1)[OF assms(1,2)]
  note fl = create_database_Inr(2)[OF assms(1,2)]
  have f: "flattened (snd (NPs_dict ! i)) (snd (NPs_dict' ! i))"
    using list_all2_nthD[OF fl assms(3)] .
  then obtain kv c where r: "snd (NPs_dict ! i) = JObject kv"
    and c: "map_of kv ''contacts'' = Some c"
    and r': "snd (NPs_dict' ! i) = JObject (AList.update ''contacts'' (JString (strip_ends (py_str c))) kv)"
    unfolding flattened_def by blast
  have 1: "getitem_key (snd (NPs_dict ! i)) ''contacts'' = Inr c"
    unfolding r using c by (simp add: getitem_key_def)
  have 2: "getitem_key (snd (NPs_dict' ! i)) ''contacts'' = Inr (JString (strip_ends (py_str c)))"
    unfolding r' by (simp add: getitem_key_def update_conv')
  have 3: "record_keys (snd (NPs_dict' ! i)) = record_keys (snd (NPs_dict ! i))"
    using f by (rule flattened_keys)
  have 4: "\<forall>field. field \<noteq> ''contacts'' \<longrightarrow>
          getitem_key (snd (NPs_dict' ! i)) field = getitem_key (snd (NPs_dict ! i)) field"
    unfolding r r' by (simp add: getitem_key_def update_other)
  from keys 1 2 3 4 show ?thesis by blast
qed

theorem create_database_mutates_contacts_witness:
  "distinct (map fst sample_dict) \<and> 0 < length sample_dict \<and> ''location'' \<noteq> ''contacts''
   \<and> (\<exists>db NPs_dict' w'.
         create_database sample_dict False fresh_world = (Inr db, NPs_dict', w')
       \<and> map fst NPs_dict' = [''Food Bank'', ''Clinic'']
       \<and> getitem_key (snd (sample_dict ! 0)) ''contacts''
           = Inr (JList [JString ''a@x.org'', JString ''555-1234''])
       \<and> getitem_key (snd (NPs_dict' ! 0)) ''contacts'' = Inr (JString sample_contacts)
       \<and> getitem_key (snd (NPs_dict' ! 0)) ''location'' = Inr (JString ''Y''))"
proof -
  have d: "distinct (map fst sample_dict)" "0 < length sample_dict"
    by (simp_all add: sample_dict_def)
  have "\<exists>db d'. create_database sample_dict False fresh_world = (Inr db, d', fresh_world)"
    by (simp add: db_eval sample_dict_def)
  then obtain db d' where c: "create_database sample_dict False fresh_world = (Inr db, d', fresh_world)"
    by blast
  note t = create_database_mutates_contacts[OF c d]
  have k: "map fst sample_dict = [''Food Bank'', ''Clinic'']" by (simp add: sample_dict_def)
  have g: "getitem_key (snd (sample_dict ! 0)) ''contacts''
           = Inr (JList [JString ''a@x.org'', JString ''555-1234''])"
    by (simp add: sample_dict_def getitem_key_def)
  have s: "strip_ends (py_str (JList [JString ''a@x.org'', JString ''555-1234''])) = sample_contacts"
    by (simp add: strip_ends_def py_str_def repr_str_def repr_quote_def repr_char_def
        printable_def sample_contacts_def Let_def)
  have l: "getitem_key (snd (sample_dict ! 0)) ''location'' = Inr (JString ''Y'')"
    by (simp add: sample_dict_def getitem_key_def)
  have ne: "''location'' \<noteq> ''contacts''" by simp
  from t k have 1: "map fst d' = [''Food Bank'', ''Clinic'']" by simp
  from t g s have 2: "getitem_key (snd (d' ! 0)) ''contacts'' = Inr (JString sample_contacts)"
    by auto
  from t ne l have 3: "getitem_key (snd (d' ! 0)) ''location'' = Inr (JString ''Y'')"
    by simp
  from d ne c 1 g 2 3 show ?thesis by (intro conjI exI)
qed

end
